theory Spec2Isabelle
  imports Main
begin

section \<open>Python strings\<close>

text \<open>
  A Python \<open>str\<close> is a sequence of Unicode code points. It is modelled as a list of
  natural numbers, one per code point, so that \<open>length\<close> is Python's \<open>len\<close> and the
  non-ASCII characters of the source (the currency glyphs of \<open>clean_invoice_total\<close>) are
  single elements. \<open>lit\<close> reads an ASCII literal.
\<close>

type_synonym pystr = "nat list"

definition lit :: "string \<Rightarrow> pystr" where
  "lit cs = map of_char cs"

text \<open>\<open>UNKNOWN_ATTRIBUTE_TEXT = "UNKNOWN"\<close> (bot.py, line 7).\<close>

definition UNKNOWN_ATTRIBUTE_TEXT :: pystr where
  "UNKNOWN_ATTRIBUTE_TEXT = lit ''UNKNOWN''"

subsection \<open>Character classes of the regular expressions\<close>

text \<open>
  The class \<open>[<>:"/\\|?*]\<close> of lines 92, 113, 127 and 168, by code point:
  \<open><\<close> 60, \<open>>\<close> 62, \<open>:\<close> 58, \<open>"\<close> 34, \<open>/\<close> 47, backslash 92, \<open>|\<close> 124, \<open>?\<close> 63, \<open>*\<close> 42.
\<close>

definition illegal_chars :: "nat list" where
  "illegal_chars = [60, 62, 58, 34, 47, 92, 124, 63, 42]"

definition illegal_char :: "nat \<Rightarrow> bool" where
  "illegal_char c = (c \<in> set illegal_chars)"

text \<open>
  \<open>\s\<close> in a \<open>str\<close> pattern, and the characters \<open>str.strip()\<close> removes: Unicode white
  space. Below 128 these are TAB, LF, VT, FF, CR, the separators FS, GS, RS, US and the
  space; above, NEL, NBSP, U+1680, U+2000 to U+200A, U+2028, U+2029, U+202F, U+205F and
  U+3000.
\<close>

definition py_isspace :: "nat \<Rightarrow> bool" where
  "py_isspace c =
     ((9 \<le> c \<and> c \<le> 13) \<or> (28 \<le> c \<and> c \<le> 32) \<or> c = 133 \<or> c = 160 \<or> c = 5760
      \<or> (8192 \<le> c \<and> c \<le> 8202) \<or> c = 8232 \<or> c = 8233 \<or> c = 8239 \<or> c = 8287
      \<or> c = 12288)"

text \<open>\<open>[<>:"/\\|?*\s]\<close> (line 113).\<close>

definition illegal_or_space :: "nat \<Rightarrow> bool" where
  "illegal_or_space c = (illegal_char c \<or> py_isspace c)"

text \<open>\<open>[\s\-\.]\<close> (line 97): white space, hyphen 45, dot 46.\<close>

definition separator_char :: "nat \<Rightarrow> bool" where
  "separator_char c = (py_isspace c \<or> c = 45 \<or> c = 46)"

text \<open>
  \<open>[a-zA-Z0-9\-_]\<close> (line 115, there negated): the ASCII letters and digits, hyphen 45,
  underscore 95. The ranges are literal, so no other Unicode letter or digit belongs.
\<close>

definition number_char :: "nat \<Rightarrow> bool" where
  "number_char c =
     ((97 \<le> c \<and> c \<le> 122) \<or> (65 \<le> c \<and> c \<le> 90) \<or> (48 \<le> c \<and> c \<le> 57) \<or> c = 45 \<or> c = 95)"

text \<open>
  \<open>[0-9\.\,\$\<euro>\<pounds>\<yen>]\<close> (line 131, there negated): ASCII digits, dot 46, comma 44, dollar 36,
  euro sign U+20AC (8364), pound sign U+00A3 (163), yen sign U+00A5 (165).
\<close>

definition total_char :: "nat \<Rightarrow> bool" where
  "total_char c =
     ((48 \<le> c \<and> c \<le> 57) \<or> c = 46 \<or> c = 44 \<or> c = 36 \<or> c = 8364 \<or> c = 163 \<or> c = 165)"

subsection \<open>\<open>re.sub\<close> and \<open>str.strip\<close>\<close>

text \<open>
  \<open>re.sub('[cls]', repl, s)\<close>: every character of the class is replaced by \<open>repl\<close>.
\<close>

definition re_sub_class :: "(nat \<Rightarrow> bool) \<Rightarrow> pystr \<Rightarrow> pystr \<Rightarrow> pystr" where
  "re_sub_class cls repl s = concat (map (\<lambda>c. if cls c then repl else [c]) s)"

text \<open>
  \<open>re.sub('[cls]+', repl, s)\<close>: the matches are the maximal runs of class characters,
  found from the left; each run is replaced by one \<open>repl\<close>.
\<close>

function re_sub_class_plus :: "(nat \<Rightarrow> bool) \<Rightarrow> pystr \<Rightarrow> pystr \<Rightarrow> pystr" where
  "re_sub_class_plus cls repl [] = []"
| "re_sub_class_plus cls repl (c # s) =
     (if cls c then repl @ re_sub_class_plus cls repl (dropWhile cls s)
      else c # re_sub_class_plus cls repl s)"
  by pat_completeness auto
termination
  by (relation "measure (\<lambda>(cls, repl, s). length s)")
     (auto simp: less_Suc_eq_le length_dropWhile_le)

text \<open>
  \<open>re.sub(r'^www\.', '', s)\<close>: without \<open>re.MULTILINE\<close> the anchor \<open>^\<close> matches at the
  start of the string only, so at most one occurrence, a prefix, is removed.
\<close>

definition re_sub_prefix :: "pystr \<Rightarrow> pystr \<Rightarrow> pystr" where
  "re_sub_prefix p s = (if take (length p) s = p then drop (length p) s else s)"

text \<open>
  \<open>re.sub(r'\.com$', '', s)\<close>: \<open>$\<close> matches at the end of the string and also just
  before a newline that ends the string. So the literal is removed when it ends the string,
  and also when it is followed by exactly one final newline (code point 10), which stays.
\<close>

definition re_sub_suffix :: "pystr \<Rightarrow> pystr \<Rightarrow> pystr" where
  "re_sub_suffix p s =
     (let n = length s; k = length p in
      if k \<le> n \<and> drop (n - k) s = p then take (n - k) s
      else if Suc k \<le> n \<and> drop (n - Suc k) s = p @ [10] then take (n - Suc k) s @ [10]
      else s)"

text \<open>\<open>s.strip(chars)\<close> and \<open>s.strip()\<close>: the characters are removed at both ends.\<close>

definition py_strip :: "(nat \<Rightarrow> bool) \<Rightarrow> pystr \<Rightarrow> pystr" where
  "py_strip cls s = rev (dropWhile cls (rev (dropWhile cls s)))"

section \<open>FieldNormalizer: the cleaning functions\<close>

text \<open>
  \<open>clean_company_name\<close> (lines 84 to 103). \<open>company_core\<close> is the value of the local
  variable \<open>cleaned\<close> at line 103, before the empty-string test.
\<close>

definition company_core :: "pystr \<Rightarrow> pystr" where
  "company_core company_name =
     (let cleaned = re_sub_class illegal_char [] company_name;
          cleaned = re_sub_prefix (lit ''www.'') cleaned;
          cleaned = re_sub_suffix (lit ''.com'') cleaned;
          cleaned = re_sub_class_plus separator_char (lit ''_'') cleaned;
          cleaned = py_strip (\<lambda>c. c = 95) cleaned;
          cleaned = (if length cleaned > 50 then take 50 cleaned else cleaned)
      in cleaned)"

definition clean_company_name :: "pystr \<Rightarrow> pystr" where
  "clean_company_name company_name =
     (if company_name = UNKNOWN_ATTRIBUTE_TEXT then company_name
      else let cleaned = company_core company_name
           in if cleaned \<noteq> [] then cleaned else UNKNOWN_ATTRIBUTE_TEXT)"

text \<open>\<open>clean_invoice_number\<close> (lines 105 to 117).\<close>

definition number_core :: "pystr \<Rightarrow> pystr" where
  "number_core invoice_number =
     (let cleaned = re_sub_class illegal_or_space [] invoice_number;
          cleaned = re_sub_class (\<lambda>c. \<not> number_char c) [] cleaned
      in cleaned)"

definition clean_invoice_number :: "pystr \<Rightarrow> pystr" where
  "clean_invoice_number invoice_number =
     (if invoice_number = UNKNOWN_ATTRIBUTE_TEXT then invoice_number
      else let cleaned = number_core invoice_number
           in if cleaned \<noteq> [] then cleaned else UNKNOWN_ATTRIBUTE_TEXT)"

text \<open>\<open>clean_invoice_total\<close> (lines 119 to 133).\<close>

definition total_core :: "pystr \<Rightarrow> pystr" where
  "total_core invoice_total =
     (let cleaned = re_sub_class illegal_char [] invoice_total;
          cleaned = re_sub_class_plus py_isspace [] cleaned;
          cleaned = re_sub_class (\<lambda>c. \<not> total_char c) [] cleaned
      in cleaned)"

definition clean_invoice_total :: "pystr \<Rightarrow> pystr" where
  "clean_invoice_total invoice_total =
     (if invoice_total = UNKNOWN_ATTRIBUTE_TEXT then invoice_total
      else let cleaned = total_core invoice_total
           in if cleaned \<noteq> [] then cleaned else UNKNOWN_ATTRIBUTE_TEXT)"

subsection \<open>Unicode tables\<close>

text \<open>
  \<open>\d\<close>, \<open>\w\<close>, \<open>str.isdigit\<close> and \<open>int\<close> read the Unicode character database of the
  interpreter, which is not part of the repository. Their ASCII part is written out; the
  part above code point 127 is a parameter of the model, and every property below is
  proved for all values of it.
\<close>

record unicode_db =
  nd_value :: "nat \<Rightarrow> nat option"
    \<comment> \<open>the digit value of a code point of category Nd (decimal digit), else \<open>None\<close>\<close>
  other_digit :: "nat \<Rightarrow> bool"
    \<comment> \<open>digits that are not decimal (superscripts and the like): \<open>isdigit\<close> but not \<open>\d\<close>\<close>
  alnum :: "nat \<Rightarrow> bool"
    \<comment> \<open>\<open>str.isalnum\<close>, the letters and numbers that \<open>\w\<close> matches\<close>

definition py_decimal_value :: "unicode_db \<Rightarrow> nat \<Rightarrow> nat option" where
  "py_decimal_value U c =
     (if c < 128 then (if 48 \<le> c \<and> c \<le> 57 then Some (c - 48) else None)
      else nd_value U c)"

text \<open>\<open>\d\<close> in a \<open>str\<close> pattern: any Unicode decimal digit.\<close>

definition re_digit :: "unicode_db \<Rightarrow> nat \<Rightarrow> bool" where
  "re_digit U c = (py_decimal_value U c \<noteq> None)"

text \<open>\<open>\w\<close> in a \<open>str\<close> pattern: alphanumeric characters and the underscore.\<close>

definition re_word :: "unicode_db \<Rightarrow> nat \<Rightarrow> bool" where
  "re_word U c =
     (if c < 128
      then ((97 \<le> c \<and> c \<le> 122) \<or> (65 \<le> c \<and> c \<le> 90) \<or> (48 \<le> c \<and> c \<le> 57) \<or> c = 95)
      else alnum U c)"

text \<open>
  \<open>s.isdigit()\<close>: the string is not empty and every character is a digit, decimal or not.
\<close>

definition str_isdigit :: "unicode_db \<Rightarrow> pystr \<Rightarrow> bool" where
  "str_isdigit U s =
     (s \<noteq> [] \<and> list_all (\<lambda>c. re_digit U c \<or> (128 \<le> c \<and> other_digit U c)) s)"

text \<open>
  \<open>int(s)\<close>, as far as line 162 can call it: on a string for which \<open>isdigit()\<close> holds.
  Such a string has no sign, white space or underscore, and \<open>int\<close> raises \<open>ValueError\<close>
  (here \<open>None\<close>) exactly when one of its digits is not a decimal digit.
\<close>

fun digits_value :: "unicode_db \<Rightarrow> nat \<Rightarrow> pystr \<Rightarrow> nat option" where
  "digits_value U acc [] = Some acc"
| "digits_value U acc (c # cs) =
     (case py_decimal_value U c of
        None \<Rightarrow> None
      | Some d \<Rightarrow> digits_value U (10 * acc + d) cs)"

definition py_int :: "unicode_db \<Rightarrow> pystr \<Rightarrow> nat option" where
  "py_int U s = (if s = [] then None else digits_value U 0 s)"

text \<open>\<open>str(n)\<close> and \<open>f"{n}"\<close> for a non-negative integer: its decimal digits.\<close>

fun str_nat :: "nat \<Rightarrow> pystr" where
  "str_nat n = (if n < 10 then [48 + n] else str_nat (n div 10) @ [48 + n mod 10])"

declare str_nat.simps [simp del]

text \<open>
  \<open>s.zfill(width)\<close>: zeros (code point 48) are added on the left up to the width; a
  leading sign (\<open>+\<close> 43 or \<open>-\<close> 45) stays in front of them.
\<close>

definition zfill :: "nat \<Rightarrow> pystr \<Rightarrow> pystr" where
  "zfill width s =
     (if width \<le> length s then s
      else let pad = replicate (width - length s) 48 in
           (case s of
              [] \<Rightarrow> pad
            | c # r \<Rightarrow> if c = 43 \<or> c = 45 then c # pad @ r else pad @ s))"

subsection \<open>\<open>re.search\<close> for the date patterns\<close>

text \<open>
  The four patterns of lines 144 to 147 are sequences of pieces, each a repeated character
  class (\<open>\d{1,2}\<close>, \<open>[/-]\<close>, \<open>\s+\<close>, \<open>\w*\<close>, \<open>,?\<close>) or an alternation of literal words
  (the month names), and some pieces are capturing groups. \<open>Rep cls lo hi\<close> is the class
  repeated at least \<open>lo\<close> and at most \<open>hi\<close> times (\<open>None\<close>: no upper bound).
\<close>

datatype atom = Rep "nat \<Rightarrow> bool" nat "nat option" | Alts "pystr list"

datatype item = Plain atom | Group atom

text \<open>
  \<open>re.IGNORECASE\<close> on a literal ASCII letter of the pattern: the subject character matches
  when it is the letter in either case, or one of the few non-ASCII characters that
  case-insensitive matching identifies with an ASCII letter: U+017F (383) with \<open>s\<close>,
  U+212A (8490) with \<open>k\<close>, U+0130 (304) and U+0131 (305) with \<open>i\<close>. Digits, white space
  and the separators have no case.
\<close>

definition ascii_lower :: "nat \<Rightarrow> nat" where
  "ascii_lower c = (if 65 \<le> c \<and> c \<le> 90 then c + 32 else c)"

definition ci_char :: "nat \<Rightarrow> nat \<Rightarrow> bool" where
  "ci_char p c =
     (ascii_lower c = ascii_lower p
      \<or> (ascii_lower p = 115 \<and> c = 383)
      \<or> (ascii_lower p = 107 \<and> c = 8490)
      \<or> (ascii_lower p = 105 \<and> (c = 304 \<or> c = 305)))"

text \<open>
  The lengths a piece can consume at the start of \<open>s\<close>, in the order in which the
  backtracking matcher tries them: a repetition is greedy, so the longest run first and
  then shorter ones down to \<open>lo\<close>; an alternation tries its words from left to right.
\<close>

fun choices :: "atom \<Rightarrow> pystr \<Rightarrow> nat list" where
  "choices (Rep cls lo hi) s =
     (let run = length (takeWhile cls s);
          n = (case hi of None \<Rightarrow> run | Some h \<Rightarrow> min h run)
      in rev [lo..<Suc n])"
| "choices (Alts ws) s =
     map length (filter (\<lambda>w. list_all2 ci_char w (take (length w) s)) ws)"

fun first_some :: "'a option list \<Rightarrow> 'a option" where
  "first_some [] = None"
| "first_some (None # xs) = first_some xs"
| "first_some (Some y # xs) = Some y"

text \<open>
  Matching a pattern at the start of \<open>s\<close>: the first choice of the first piece for which
  the rest of the pattern matches what follows. The result is \<open>match.groups()\<close>.
\<close>

fun match_here :: "item list \<Rightarrow> pystr \<Rightarrow> pystr list option" where
  "match_here [] s = Some []"
| "match_here (Plain a # items) s =
     first_some (map (\<lambda>k. match_here items (drop k s)) (choices a s))"
| "match_here (Group a # items) s =
     first_some (map (\<lambda>k. map_option ((#) (take k s)) (match_here items (drop k s)))
       (choices a s))"

text \<open>\<open>re.search\<close>: the match at the leftmost position where the pattern matches.\<close>

definition re_search :: "item list \<Rightarrow> pystr \<Rightarrow> pystr list option" where
  "re_search pattern s =
     first_some (map (\<lambda>i. match_here pattern (drop i s)) [0..<Suc (length s)])"

text \<open>\<open>[/-]\<close>: slash 47, hyphen 45.\<close>

definition date_sep :: "nat \<Rightarrow> bool" where
  "date_sep c = (c = 47 \<or> c = 45)"

definition month_names :: "pystr list" where
  "month_names = map lit [''Jan'', ''Feb'', ''Mar'', ''Apr'', ''May'', ''Jun'',
                          ''Jul'', ''Aug'', ''Sep'', ''Oct'', ''Nov'', ''Dec'']"

text \<open>
  \<open>date_patterns\<close> (lines 143 to 148), in the order of the source:
  \<open>(\d{1,2})[/-](\d{1,2})[/-](\d{2,4})\<close>,
  \<open>(\d{2,4})[/-](\d{1,2})[/-](\d{1,2})\<close>,
  \<open>(\d{1,2})\s+(Jan|...|Dec)\w*\s+(\d{2,4})\<close> and
  \<open>(Jan|...|Dec)\w*\s+(\d{1,2}),?\s+(\d{2,4})\<close>.
\<close>

definition date_pattern_1 :: "unicode_db \<Rightarrow> item list" where
  "date_pattern_1 U =
     [Group (Rep (re_digit U) 1 (Some 2)), Plain (Rep date_sep 1 (Some 1)),
      Group (Rep (re_digit U) 1 (Some 2)), Plain (Rep date_sep 1 (Some 1)),
      Group (Rep (re_digit U) 2 (Some 4))]"

definition date_pattern_2 :: "unicode_db \<Rightarrow> item list" where
  "date_pattern_2 U =
     [Group (Rep (re_digit U) 2 (Some 4)), Plain (Rep date_sep 1 (Some 1)),
      Group (Rep (re_digit U) 1 (Some 2)), Plain (Rep date_sep 1 (Some 1)),
      Group (Rep (re_digit U) 1 (Some 2))]"

definition date_pattern_3 :: "unicode_db \<Rightarrow> item list" where
  "date_pattern_3 U =
     [Group (Rep (re_digit U) 1 (Some 2)), Plain (Rep py_isspace 1 None),
      Group (Alts month_names), Plain (Rep (re_word U) 0 None),
      Plain (Rep py_isspace 1 None), Group (Rep (re_digit U) 2 (Some 4))]"

definition date_pattern_4 :: "unicode_db \<Rightarrow> item list" where
  "date_pattern_4 U =
     [Group (Alts month_names), Plain (Rep (re_word U) 0 None),
      Plain (Rep py_isspace 1 None), Group (Rep (re_digit U) 1 (Some 2)),
      Plain (Rep (\<lambda>c. c = 44) 0 (Some 1)), Plain (Rep py_isspace 1 None),
      Group (Rep (re_digit U) 2 (Some 4))]"

definition date_patterns :: "unicode_db \<Rightarrow> item list list" where
  "date_patterns U = [date_pattern_1 U, date_pattern_2 U, date_pattern_3 U, date_pattern_4 U]"

subsection \<open>\<open>clean_date\<close>\<close>

text \<open>
  The body of the \<open>try\<close> block (lines 155 to 163) for the groups of one match:
  \<open>Some r\<close> when it returns \<open>r\<close>, \<open>None\<close> when it returns nothing, either because a test
  fails or because \<open>int\<close> raises and the bare \<open>except\<close> passes.
\<close>

definition reformat :: "unicode_db \<Rightarrow> pystr list \<Rightarrow> pystr option" where
  "reformat U groups =
     (if length groups = 3 then
        (if str_isdigit U (groups ! 0) \<and> str_isdigit U (groups ! 1)
            \<and> str_isdigit U (groups ! 2) then
           (if length (groups ! 2) = 4 then
              Some (groups ! 0 @ lit ''-'' @ zfill 2 (groups ! 1) @ lit ''-''
                    @ zfill 2 (groups ! 2))
            else
              (case py_int U (groups ! 2) of
                 None \<Rightarrow> None
               | Some n \<Rightarrow>
                   let year = (if n < 50 then n + 2000 else n + 1900)
                   in Some (str_nat year @ lit ''-'' @ zfill 2 (groups ! 0) @ lit ''-''
                            @ zfill 2 (groups ! 1))))
         else None)
      else None)"

text \<open>The \<open>for\<close> loop over the patterns (lines 150 to 165).\<close>

fun date_loop :: "unicode_db \<Rightarrow> item list list \<Rightarrow> pystr \<Rightarrow> pystr option" where
  "date_loop U [] date = None"
| "date_loop U (pattern # rest) date =
     (case re_search pattern date of
        None \<Rightarrow> date_loop U rest date
      | Some groups \<Rightarrow>
          (case reformat U groups of
             Some r \<Rightarrow> Some r
           | None \<Rightarrow> date_loop U rest date))"

text \<open>The value of \<open>cleaned\<close> at line 171.\<close>

definition date_core :: "pystr \<Rightarrow> pystr" where
  "date_core date =
     (let cleaned = re_sub_class illegal_char [] date;
          cleaned = re_sub_class_plus py_isspace (lit ''_'') (py_strip py_isspace cleaned)
      in cleaned)"

definition clean_date :: "unicode_db \<Rightarrow> pystr \<Rightarrow> pystr" where
  "clean_date U date =
     (if date = UNKNOWN_ATTRIBUTE_TEXT then date
      else case date_loop U (date_patterns U) date of
             Some r \<Rightarrow> r
           | None \<Rightarrow>
               let cleaned = date_core date
               in if cleaned \<noteq> [] then cleaned else UNKNOWN_ATTRIBUTE_TEXT)"


text \<open>
  An InvoiceRecord: the dictionary with exactly the four keys that
  \<open>answer_invoice_questions\<close> builds (lines 19 to 24).
\<close>

record invoice_data =
  company_name :: pystr
  invoice_number :: pystr
  invoice_total :: pystr
  date :: pystr

text \<open>\<open>clean_all\<close> (lines 173 to 182).\<close>

definition clean_all :: "unicode_db \<Rightarrow> invoice_data \<Rightarrow> invoice_data" where
  "clean_all U d =
     d\<lparr>company_name := clean_company_name (company_name d),
       invoice_number := clean_invoice_number (invoice_number d),
       invoice_total := clean_invoice_total (invoice_total d),
       date := clean_date U (date d)\<rparr>"

section \<open>NameBuilder\<close>

text \<open>
  The value of \<open>datetime.now()\<close>, as far as \<open>strftime("%Y-%m-%d")\<close> reads it, and the
  formatted text: the year on four digits, month and day on two.
\<close>

record datetime =
  year :: nat
  month :: nat
  day :: nat

definition strftime_Ymd :: "datetime \<Rightarrow> pystr" where
  "strftime_Ymd d =
     zfill 4 (str_nat (year d)) @ lit ''-'' @ zfill 2 (str_nat (month d)) @ lit ''-''
     @ zfill 2 (str_nat (day d))"

text \<open>\<open>sep.join(xs)\<close>.\<close>

fun py_join :: "pystr \<Rightarrow> pystr list \<Rightarrow> pystr" where
  "py_join sep [] = []"
| "py_join sep [x] = x"
| "py_join sep (x # y # ys) = x @ sep @ py_join sep (y # ys)"

text \<open>
  \<open>create_new_name\<close> (lines 184 to 224). \<open>name_components\<close> is the list \<open>components\<close>
  after line 215, \<open>candidate_name\<close> the value of \<open>filename\<close> after line 218, before the
  length test. The clock is read at line 210; its value is the parameter \<open>now\<close>.
\<close>

definition name_components :: "datetime \<Rightarrow> invoice_data \<Rightarrow> pystr list" where
  "name_components now d =
     (let components = [];
          components = components @
            [if company_name d \<noteq> UNKNOWN_ATTRIBUTE_TEXT then company_name d
             else lit ''UnknownCompany''];
          components = components @
            [if invoice_number d \<noteq> UNKNOWN_ATTRIBUTE_TEXT then invoice_number d
             else lit ''NoNumber''];
          components = components @
            [if date d \<noteq> UNKNOWN_ATTRIBUTE_TEXT then date d else strftime_Ymd now];
          components = components @
            [if invoice_total d \<noteq> UNKNOWN_ATTRIBUTE_TEXT then invoice_total d
             else lit ''NoAmount'']
      in components)"

definition candidate_name :: "datetime \<Rightarrow> invoice_data \<Rightarrow> pystr" where
  "candidate_name now d = py_join (lit ''_'') (name_components now d) @ lit ''.pdf''"

definition create_new_name :: "datetime \<Rightarrow> invoice_data \<Rightarrow> pystr" where
  "create_new_name now d =
     (let filename = candidate_name now d
      in if length filename > 200 then take 200 filename @ lit ''.pdf'' else filename)"

section \<open>CollisionResolver\<close>

subsection \<open>\<open>os.path\<close>\<close>

text \<open>
  The functions of \<open>os.path\<close> that \<open>rename_file\<close> calls, as \<open>posixpath\<close> defines them
  (separator \<open>/\<close> 47, extension separator \<open>.\<close> 46). \<open>rfind1 c s\<close> is \<open>s.rfind(c) + 1\<close>,
  which is \<open>0\<close> when \<open>c\<close> does not occur.
\<close>

definition rfind1 :: "nat \<Rightarrow> pystr \<Rightarrow> nat" where
  "rfind1 c s = length s - length (takeWhile (\<lambda>x. x \<noteq> c) (rev s))"

definition posix_dirname :: "pystr \<Rightarrow> pystr" where
  "posix_dirname p =
     (let i = rfind1 47 p; head = take i p
      in if head \<noteq> [] \<and> head \<noteq> replicate (length head) 47
         then rev (dropWhile (\<lambda>c. c = 47) (rev head)) else head)"

definition posix_join :: "pystr \<Rightarrow> pystr \<Rightarrow> pystr" where
  "posix_join a b =
     (if take 1 b = [47] then b
      else if a = [] \<or> last a = 47 then a @ b
      else a @ [47] @ b)"

text \<open>
  \<open>splitext\<close>: the extension starts at the last dot of the last path component, unless
  that component has only dots before it.
\<close>

definition posix_splitext :: "pystr \<Rightarrow> pystr \<times> pystr" where
  "posix_splitext p =
     (let sep1 = rfind1 47 p; dot1 = rfind1 46 p
      in if dot1 > sep1 \<and> \<not> list_all (\<lambda>c. c = 46) (take (dot1 - 1 - sep1) (drop sep1 p))
         then (take (dot1 - 1) p, drop (dot1 - 1) p)
         else (p, []))"

subsection \<open>The operating system\<close>

text \<open>
  The file system, the clock and the question-answering model are outside the repository.
  They are a parameter: a state \<open>'w\<close> of the outside world and the operations the source
  calls on it. An operation that can raise returns the text \<open>str(e)\<close> of its exception
  (\<open>None\<close> when it succeeds) and the state it leaves. \<open>answer_invoice_questions\<close>
  (lines 9 to 82) catches every exception of the model and always returns a record.
\<close>

record 'w environment =
  path_exists :: "'w \<Rightarrow> pystr \<Rightarrow> bool"
  os_rename :: "'w \<Rightarrow> pystr \<Rightarrow> pystr \<Rightarrow> pystr option \<times> 'w"
  os_makedirs :: "'w \<Rightarrow> pystr \<Rightarrow> pystr option \<times> 'w"
  shutil_copy2 :: "'w \<Rightarrow> pystr \<Rightarrow> pystr \<Rightarrow> pystr option \<times> 'w"
  answer_invoice_questions :: "'w \<Rightarrow> pystr \<Rightarrow> invoice_data \<times> 'w"
  datetime_now :: "'w \<Rightarrow> datetime"

subsection \<open>\<open>rename_file\<close>\<close>

text \<open>
  The \<open>while\<close> loop of lines 236 to 239, from the values of \<open>new_path\<close> and \<open>counter\<close>
  at its head. Nothing bounds the counter: when every candidate exists the loop does not
  end, and the result is \<open>None\<close>.
\<close>

partial_function (option) free_path ::
  "(pystr \<Rightarrow> bool) \<Rightarrow> pystr \<Rightarrow> pystr \<Rightarrow> pystr \<Rightarrow> pystr \<Rightarrow> nat \<Rightarrow> pystr option" where
  "free_path ex directory base_name ext new_path counter =
     (if ex new_path
      then free_path ex directory base_name ext
             (posix_join directory (base_name @ lit ''_'' @ str_nat counter @ ext))
             (counter + 1)
      else Some new_path)"

declare free_path.simps [code]

text \<open>
  \<open>rename_file\<close> (lines 226 to 242): \<open>None\<close> when the loop does not end; otherwise the
  state after \<open>os.rename\<close> and either the text of its exception (\<open>Inl\<close>) or the returned
  path (\<open>Inr\<close>).
\<close>

definition rename_file ::
  "'w environment \<Rightarrow> 'w \<Rightarrow> pystr \<Rightarrow> pystr \<Rightarrow> ((pystr + pystr) \<times> 'w) option" where
  "rename_file env w old_path new_name =
     (let directory = posix_dirname old_path;
          new_path = posix_join directory new_name;
          counter = 1;
          (base_name, ext) = posix_splitext new_name
      in case free_path (path_exists env w) directory base_name ext new_path counter of
           None \<Rightarrow> None
         | Some new_path \<Rightarrow>
             (case os_rename env w old_path new_path of
                (Some e, w') \<Rightarrow> Some (Inl e, w')
              | (None, w') \<Rightarrow> Some (Inr new_path, w')))"

text \<open>
  The sequence of candidates the claim speaks of, for reference: the name itself, then
  \<open>base_1.ext\<close>, \<open>base_2.ext\<close>, ..., each joined to the directory of the old path.
\<close>

definition candidate :: "pystr \<Rightarrow> pystr \<Rightarrow> nat \<Rightarrow> pystr" where
  "candidate old_path new_name k =
     posix_join (posix_dirname old_path)
       (if k = 0 then new_name
        else fst (posix_splitext new_name) @ lit ''_'' @ str_nat k
             @ snd (posix_splitext new_name))"

section \<open>BatchOrchestrator\<close>

text \<open>
  The dictionaries that \<open>process_single_invoice\<close> and \<open>process_multiple_invoices\<close>
  return. A key that a dictionary does not have is \<open>None\<close>; \<open>invoice_data\<close> is the Python
  \<open>None\<close> in a failure record.
\<close>

record result =
  success :: bool
  original_path :: pystr
  new_path :: "pystr option"
  new_filename :: "pystr option"
  error :: "pystr option"
  invoice_data :: "invoice_data option"

definition failure :: "pystr \<Rightarrow> pystr \<Rightarrow> result" where
  "failure file_path e =
     \<lparr>success = False, original_path = file_path, new_path = None, new_filename = None,
      error = Some e, invoice_data = None\<rparr>"

text \<open>
  \<open>process_single_invoice\<close> (lines 244 to 289). \<open>output_directory\<close> is \<open>None\<close> or a
  string, and line 266 tests its truth: the empty string counts as no directory.
\<close>

definition process_single_invoice ::
  "unicode_db \<Rightarrow> 'w environment \<Rightarrow> 'w \<Rightarrow> pystr \<Rightarrow> pystr option \<Rightarrow> (result \<times> 'w) option" where
  "process_single_invoice U env w file_path output_directory =
     (let (extracted, w1) = answer_invoice_questions env w file_path;
          cleaned_data = clean_all U extracted;
          filename = create_new_name (datetime_now env w1) cleaned_data;
          ok = (\<lambda>p. \<lparr>success = True, original_path = file_path, new_path = Some p,
                        new_filename = Some filename, error = None,
                        invoice_data = Some cleaned_data\<rparr>)
      in if output_directory \<noteq> None \<and> output_directory \<noteq> Some [] then
           (case os_makedirs env w1 (the output_directory) of
              (Some e, w2) \<Rightarrow> Some (failure file_path e, w2)
            | (None, w2) \<Rightarrow>
                let target = posix_join (the output_directory) filename in
                (case shutil_copy2 env w2 file_path target of
                   (Some e, w3) \<Rightarrow> Some (failure file_path e, w3)
                 | (None, w3) \<Rightarrow> Some (ok target, w3)))
         else
           (case rename_file env w1 file_path filename of
              None \<Rightarrow> None
            | Some (Inl e, w2) \<Rightarrow> Some (failure file_path e, w2)
            | Some (Inr p, w2) \<Rightarrow> Some (ok p, w2)))"

text \<open>
  \<open>process_multiple_invoices\<close> (lines 291 to 316): the \<open>for\<close> loop from the values of
  \<open>results\<close> and of the outside world at its head.
\<close>

fun batch_loop ::
  "unicode_db \<Rightarrow> 'w environment \<Rightarrow> pystr option \<Rightarrow> pystr list \<Rightarrow> result list \<Rightarrow> 'w
   \<Rightarrow> (result list \<times> 'w) option" where
  "batch_loop U env output_directory [] results w = Some (results, w)"
| "batch_loop U env output_directory (file_path # rest) results w =
     (if path_exists env w file_path then
        (case process_single_invoice U env w file_path output_directory of
           None \<Rightarrow> None
         | Some (r, w') \<Rightarrow> batch_loop U env output_directory rest (results @ [r]) w')
      else batch_loop U env output_directory rest
             (results @ [failure file_path (lit ''File not found'')]) w)"

definition process_multiple_invoices ::
  "unicode_db \<Rightarrow> 'w environment \<Rightarrow> 'w \<Rightarrow> pystr list \<Rightarrow> pystr option
   \<Rightarrow> (result list \<times> 'w) option" where
  "process_multiple_invoices U env w file_paths output_directory =
     batch_loop U env output_directory file_paths [] w"

section \<open>A small outside world for the examples\<close>

text \<open>
  A Unicode table that knows the Arabic-Indic digits U+0660 to U+0669 and the superscript
  two U+00B2, and a file system that is the list of the paths that exist, where the
  question-answering model is not installed (every field is the sentinel, as lines 75 to
  82 return) and the date is 5 January 2024.
\<close>

definition demo_unicode :: unicode_db where
  "demo_unicode =
     \<lparr>nd_value = (\<lambda>c. if 1632 \<le> c \<and> c \<le> 1641 then Some (c - 1632) else None),
      other_digit = (\<lambda>c. c = 178),
      alnum = (\<lambda>c. 1632 \<le> c \<and> c \<le> 1641)\<rparr>"

definition all_unknown :: invoice_data where
  "all_unknown =
     \<lparr>company_name = UNKNOWN_ATTRIBUTE_TEXT, invoice_number = UNKNOWN_ATTRIBUTE_TEXT,
      invoice_total = UNKNOWN_ATTRIBUTE_TEXT, date = UNKNOWN_ATTRIBUTE_TEXT\<rparr>"

definition demo_env :: "pystr list environment" where
  "demo_env =
     \<lparr>path_exists = (\<lambda>w p. p \<in> set w),
      os_rename = (\<lambda>w a b. if a \<in> set w then (None, b # removeAll a w)
                            else (Some (lit ''No such file or directory''), w)),
      os_makedirs = (\<lambda>w d. (None, if d \<in> set w then w else d # w)),
      shutil_copy2 = (\<lambda>w a b. if a \<in> set w then (None, if b \<in> set w then w else b # w)
                               else (Some (lit ''No such file or directory''), w)),
      answer_invoice_questions = (\<lambda>w p. (all_unknown, w)),
      datetime_now = (\<lambda>w. \<lparr>year = 2024, month = 1, day = 5\<rparr>)\<rparr>"


subsection \<open>What a match captures\<close>

text \<open>
  For the proofs: the pieces of a pattern that are groups, and what the text captured by
  a piece satisfies.
\<close>

fun atom_ok :: "atom \<Rightarrow> pystr \<Rightarrow> bool" where
  "atom_ok (Rep cls lo hi) g = (list_all cls g \<and> lo \<le> length g)"
| "atom_ok (Alts ws) g = (\<exists>w\<in>set ws. list_all2 ci_char w g)"

fun groups_of :: "item list \<Rightarrow> atom list" where
  "groups_of [] = []"
| "groups_of (Plain a # r) = groups_of r"
| "groups_of (Group a # r) = a # groups_of r"

section \<open>Properties\<close>

subsection \<open>Evaluating literals and substitutions\<close>

lemma re_sub_class_empty: "re_sub_class cls [] s = filter (\<lambda>c. \<not> cls c) s"
  by (induction s) (simp_all add: re_sub_class_def)

text \<open>
  C10. Some input other than the sentinel, for example \<open>"UNKNOWN?"\<close>, is turned into the
  sentinel \<open>"UNKNOWN"\<close> by the character stripping of \<open>clean_invoice_number\<close> itself: the
  stripped string is not empty, so the empty-result fallback is not what produces it.
\<close>

theorem clean_invoice_number_sentinel_collision:
  "lit ''UNKNOWN?'' \<noteq> UNKNOWN_ATTRIBUTE_TEXT
   \<and> number_core (lit ''UNKNOWN?'') = UNKNOWN_ATTRIBUTE_TEXT
   \<and> number_core (lit ''UNKNOWN?'') \<noteq> []
   \<and> clean_invoice_number (lit ''UNKNOWN?'') = UNKNOWN_ATTRIBUTE_TEXT"
  by (simp add: clean_invoice_number_def number_core_def re_sub_class_empty
      illegal_or_space_def illegal_char_def illegal_chars_def py_isspace_def number_char_def
      UNKNOWN_ATTRIBUTE_TEXT_def lit_def)

subsection \<open>The matcher\<close>


lemma first_some_map:
  "first_some (map f xs) = Some y \<Longrightarrow> \<exists>x\<in>set xs. f x = Some y"
proof (induction xs)
  case Nil
  then show ?case by simp
next
  case (Cons x xs)
  then show ?case by (cases "f x") auto
qed

lemma takeWhile_take_all: "k \<le> length (takeWhile P s) \<Longrightarrow> list_all P (take k s)"
proof (induction s arbitrary: k)
  case Nil
  then show ?case by simp
next
  case (Cons x s)
  then show ?case by (cases k) (auto split: if_splits)
qed

lemma choices_ok:
  assumes k: "k \<in> set (choices a s)"
  shows "atom_ok a (take k s)"
proof (cases a)
  case (Rep cls lo hi)
  have le: "length (takeWhile cls s) \<le> length s" by (rule length_takeWhile_le)
  from k Rep have "lo \<le> k" and "k \<le> length (takeWhile cls s)"
    by (auto simp: Let_def split: option.splits)
  then show ?thesis using Rep le takeWhile_take_all[of k cls s] by (simp add: min_def)
next
  case (Alts ws)
  then obtain w where w: "w \<in> set ws" "list_all2 ci_char w (take (length w) s)" "k = length w"
    using k by auto
  then show ?thesis using Alts by auto
qed

lemma match_here_groups:
  "match_here items s = Some gs \<Longrightarrow> list_all2 atom_ok (groups_of items) gs"
proof (induction items s arbitrary: gs rule: match_here.induct)
  case (1 s)
  then show ?case by simp
next
  case (2 a items s)
  from "2.prems" obtain k where "k \<in> set (choices a s)" "match_here items (drop k s) = Some gs"
    by (auto dest: first_some_map)
  then show ?case using "2.IH" by simp
next
  case (3 a items s)
  from "3.prems" obtain k where k: "k \<in> set (choices a s)"
      "map_option ((#) (take k s)) (match_here items (drop k s)) = Some gs"
    by (auto dest: first_some_map)
  then obtain gs' where "match_here items (drop k s) = Some gs'" "gs = take k s # gs'"
    by auto
  then show ?case using "3.IH" k choices_ok[of k a s] by simp
qed

lemma match_here_sub:
  "match_here items s = Some gs \<Longrightarrow> g \<in> set gs \<Longrightarrow> set g \<subseteq> set s"
proof (induction items s arbitrary: gs rule: match_here.induct)
  case (1 s)
  then show ?case by simp
next
  case (2 a items s)
  from "2.prems" obtain k where "k \<in> set (choices a s)" "match_here items (drop k s) = Some gs"
    by (auto dest: first_some_map)
  then have "set g \<subseteq> set (drop k s)" using "2.IH" "2.prems" by blast
  then show ?case using set_drop_subset by fastforce
next
  case (3 a items s)
  from "3.prems" obtain k where k: "k \<in> set (choices a s)"
      "map_option ((#) (take k s)) (match_here items (drop k s)) = Some gs"
    by (auto dest: first_some_map)
  then obtain gs' where gs': "match_here items (drop k s) = Some gs'" "gs = take k s # gs'"
    by auto
  show ?case
  proof (cases "g = take k s")
    case True
    then show ?thesis using set_take_subset by fastforce
  next
    case False
    then have "g \<in> set gs'" using gs' "3.prems" by simp
    then have "set g \<subseteq> set (drop k s)" using "3.IH" k gs' by blast
    then show ?thesis using set_drop_subset by fastforce
  qed
qed

lemma re_search_match:
  assumes "re_search items s = Some gs"
  shows "\<exists>i. match_here items (drop i s) = Some gs"
  using assms unfolding re_search_def by (blast dest: first_some_map)

lemma re_search_groups:
  "re_search items s = Some gs \<Longrightarrow> list_all2 atom_ok (groups_of items) gs"
  by (blast dest: re_search_match match_here_groups)

lemma re_search_sub:
  "re_search items s = Some gs \<Longrightarrow> g \<in> set gs \<Longrightarrow> set g \<subseteq> set s"
proof -
  assume a: "re_search items s = Some gs" "g \<in> set gs"
  then obtain i where "match_here items (drop i s) = Some gs" by (blast dest: re_search_match)
  then have "set g \<subseteq> set (drop i s)" using a match_here_sub by blast
  then show ?thesis using set_drop_subset by fastforce
qed

subsection \<open>Characters that the substitutions keep\<close>

lemmas char_defs = illegal_char_def illegal_chars_def py_isspace_def separator_char_def
  illegal_or_space_def number_char_def total_char_def

lemma UNKNOWN_nonempty: "UNKNOWN_ATTRIBUTE_TEXT \<noteq> []"
  by (simp add: UNKNOWN_ATTRIBUTE_TEXT_def lit_def)

lemma UNKNOWN_legal: "c \<in> set UNKNOWN_ATTRIBUTE_TEXT \<Longrightarrow> \<not> illegal_char c"
  by (auto simp: UNKNOWN_ATTRIBUTE_TEXT_def lit_def char_defs)

lemma set_re_sub_class_plus: "set (re_sub_class_plus cls repl s) \<subseteq> set s \<union> set repl"
  by (induction cls repl s rule: re_sub_class_plus.induct) (auto dest: set_dropWhileD)

lemma set_py_strip: "set (py_strip cls s) \<subseteq> set s"
  by (auto simp: py_strip_def dest!: set_dropWhileD)

lemma set_re_sub_prefix: "set (re_sub_prefix p s) \<subseteq> set s"
  by (auto simp: re_sub_prefix_def dest: in_set_dropD)

lemma set_re_sub_suffix: "set (re_sub_suffix p s) \<subseteq> set s"
proof -
  have "10 \<in> set s" if "drop n s = p @ [10]" for n
  proof -
    have "10 \<in> set (drop n s)" using that by simp
    then show ?thesis by (rule in_set_dropD)
  qed
  then show ?thesis
    by (auto simp: re_sub_suffix_def Let_def dest: in_set_takeD)
qed

lemma company_core_legal:
  assumes "c \<in> set (company_core s)"
  shows "\<not> illegal_char c"
proof -
  define a where "a = re_sub_class illegal_char [] s"
  define b where "b = re_sub_suffix (lit ''.com'') (re_sub_prefix (lit ''www.'') a)"
  define d where "d = re_sub_class_plus separator_char (lit ''_'') b"
  have core: "company_core s = (if length (py_strip (\<lambda>c. c = 95) d) > 50
      then take 50 (py_strip (\<lambda>c. c = 95) d) else py_strip (\<lambda>c. c = 95) d)"
    by (simp add: company_core_def a_def b_def d_def)
  have "c \<in> set (py_strip (\<lambda>c. c = 95) d)"
    using assms core by (auto split: if_splits dest: in_set_takeD)
  then have "c \<in> set d" using set_py_strip by blast
  then have "c \<in> set b \<or> c = 95"
    using set_re_sub_class_plus[of separator_char "lit ''_''" b] by (auto simp: d_def lit_def)
  moreover have "set b \<subseteq> set a"
    unfolding b_def using set_re_sub_suffix set_re_sub_prefix by (meson subset_trans)
  moreover have "\<forall>x\<in>set a. \<not> illegal_char x" by (simp add: a_def re_sub_class_empty)
  moreover have "\<not> illegal_char 95" by (simp add: char_defs)
  ultimately show ?thesis by blast
qed

lemma number_core_legal: "c \<in> set (number_core s) \<Longrightarrow> \<not> illegal_char c"
  by (auto simp: number_core_def re_sub_class_empty illegal_or_space_def)

lemma total_core_legal: "c \<in> set (total_core s) \<Longrightarrow> \<not> illegal_char c"
  using set_re_sub_class_plus[of py_isspace "[]" "re_sub_class illegal_char [] s"]
  by (auto simp: total_core_def re_sub_class_empty)

lemma date_core_legal:
  assumes "c \<in> set (date_core s)"
  shows "\<not> illegal_char c"
proof -
  define a where "a = re_sub_class illegal_char [] s"
  have "c \<in> set (py_strip py_isspace a) \<or> c = 95"
    using assms set_re_sub_class_plus[of py_isspace "lit ''_''" "py_strip py_isspace a"]
    by (auto simp: date_core_def a_def lit_def)
  moreover have "set (py_strip py_isspace a) \<subseteq> set a" by (rule set_py_strip)
  moreover have "\<forall>x\<in>set a. \<not> illegal_char x" by (simp add: a_def re_sub_class_empty)
  moreover have "\<not> illegal_char 95" by (simp add: char_defs)
  ultimately show ?thesis by blast
qed

subsection \<open>Digits and numbers\<close>

lemma re_digit_legal: "re_digit U c \<Longrightarrow> \<not> illegal_char c"
  by (auto simp: re_digit_def py_decimal_value_def char_defs split: if_splits)

lemma illegal_char_ascii: "illegal_char c \<Longrightarrow> c < 128"
  by (auto simp: char_defs)

lemma str_isdigit_legal:
  assumes "str_isdigit U g" and "c \<in> set g"
  shows "\<not> illegal_char c"
proof -
  from assms have "re_digit U c \<or> 128 \<le> c"
    by (auto simp: str_isdigit_def list_all_iff)
  then show ?thesis using re_digit_legal illegal_char_ascii by fastforce
qed

lemma set_zfill: "set (zfill w s) \<subseteq> insert 48 (set s)"
  by (auto simp: zfill_def Let_def split: list.splits if_splits)

lemma set_str_nat: "set (str_nat n) \<subseteq> {48..57}"
proof (induction n rule: str_nat.induct)
  case (1 n)
  show ?case
  proof (cases "n < 10")
    case True
    then show ?thesis by (subst str_nat.simps) simp
  next
    case False
    have "48 + n mod 10 \<in> {48..57}" by simp
    then show ?thesis using 1 False by (subst str_nat.simps) simp
  qed
qed

lemma str_nat_nonempty: "str_nat n \<noteq> []"
  by (subst str_nat.simps) simp

lemma str_nat_legal: "c \<in> set (str_nat n) \<Longrightarrow> \<not> illegal_char c"
  using set_str_nat[of n] by (auto simp: char_defs)

lemma zfill_legal:
  "(\<And>c. c \<in> set s \<Longrightarrow> \<not> illegal_char c) \<Longrightarrow> c \<in> set (zfill w s) \<Longrightarrow> \<not> illegal_char c"
proof -
  assume legal: "\<And>c. c \<in> set s \<Longrightarrow> \<not> illegal_char c" and c: "c \<in> set (zfill w s)"
  from c have "c = 48 \<or> c \<in> set s" using set_zfill[of w s] by blast
  moreover have "\<not> illegal_char 48" by (simp add: char_defs)
  ultimately show ?thesis using legal by blast
qed

lemma reformat_legal:
  assumes "reformat U gs = Some r" and "c \<in> set r"
  shows "\<not> illegal_char c"
proof -
  have dash: "\<not> illegal_char 45" by (simp add: char_defs)
  from assms(1) have d: "str_isdigit U (gs ! 0)" "str_isdigit U (gs ! 1)" "str_isdigit U (gs ! 2)"
    by (auto simp: reformat_def split: if_splits)
  have z: "x \<in> set (zfill 2 (gs ! i)) \<Longrightarrow> str_isdigit U (gs ! i) \<Longrightarrow> \<not> illegal_char x" for x i
    using zfill_legal[of "gs ! i" x 2] str_isdigit_legal[of U "gs ! i"] by blast
  show ?thesis
  proof (cases "length (gs ! 2) = 4")
    case True
    then have "r = gs ! 0 @ lit ''-'' @ zfill 2 (gs ! 1) @ lit ''-'' @ zfill 2 (gs ! 2)"
      using assms(1) by (auto simp: reformat_def split: if_splits)
    then show ?thesis using assms(2) d z dash str_isdigit_legal[of U "gs ! 0" c]
      by (auto simp: lit_def)
  next
    case False
    then have "\<exists>y. r = str_nat y @ lit ''-'' @ zfill 2 (gs ! 0) @ lit ''-'' @ zfill 2 (gs ! 1)"
      using assms(1) by (auto simp: reformat_def Let_def split: if_splits option.splits)
    then obtain y where "r = str_nat y @ lit ''-'' @ zfill 2 (gs ! 0) @ lit ''-''
        @ zfill 2 (gs ! 1)" ..
    then show ?thesis using assms(2) d z dash str_nat_legal
      by (auto simp: lit_def)
  qed
qed

lemma reformat_nonempty: "reformat U gs = Some r \<Longrightarrow> r \<noteq> []"
  by (auto simp: reformat_def Let_def lit_def split: if_splits option.splits)

lemma date_loop_legal:
  "date_loop U ps s = Some r \<Longrightarrow> c \<in> set r \<Longrightarrow> \<not> illegal_char c"
  by (induction ps) (auto split: option.splits dest: reformat_legal)

lemma date_loop_nonempty: "date_loop U ps s = Some r \<Longrightarrow> r \<noteq> []"
  by (induction ps) (auto split: option.splits dest: reformat_nonempty)

subsection \<open>Evaluating the cleaning functions on given strings\<close>

lemmas date_eval = clean_date_def date_patterns_def date_pattern_1_def date_pattern_2_def
  date_pattern_3_def date_pattern_4_def re_search_def lit_def UNKNOWN_ATTRIBUTE_TEXT_def
  re_digit_def re_word_def py_decimal_value_def date_sep_def month_names_def ci_char_def
  ascii_lower_def reformat_def str_isdigit_def py_int_def zfill_def upt_rec py_isspace_def
  date_core_def re_sub_class_empty py_strip_def illegal_char_def illegal_chars_def
  str_nat.simps

lemmas clean_eval = clean_company_name_def company_core_def clean_invoice_number_def
  number_core_def clean_invoice_total_def total_core_def re_sub_class_empty re_sub_prefix_def
  re_sub_suffix_def py_strip_def char_defs lit_def UNKNOWN_ATTRIBUTE_TEXT_def

section \<open>The claims about the cleaning functions\<close>

text \<open>
  C4. Each of the four cleaning functions (\<open>clean_company_name\<close>,
  \<open>clean_invoice_number\<close>, \<open>clean_invoice_total\<close>, \<open>clean_date\<close>) returns the sentinel
  \<open>"UNKNOWN"\<close> unchanged.
\<close>

theorem cleaners_preserve_sentinel:
  "clean_company_name UNKNOWN_ATTRIBUTE_TEXT = UNKNOWN_ATTRIBUTE_TEXT
   \<and> clean_invoice_number UNKNOWN_ATTRIBUTE_TEXT = UNKNOWN_ATTRIBUTE_TEXT
   \<and> clean_invoice_total UNKNOWN_ATTRIBUTE_TEXT = UNKNOWN_ATTRIBUTE_TEXT
   \<and> clean_date U UNKNOWN_ATTRIBUTE_TEXT = UNKNOWN_ATTRIBUTE_TEXT"
  by (simp add: clean_company_name_def clean_invoice_number_def clean_invoice_total_def
      clean_date_def)

theorem cleaners_preserve_sentinel_witness:
  "clean_company_name (lit ''UNKNOWN'') = lit ''UNKNOWN''
   \<and> clean_invoice_number (lit ''UNKNOWN'') = lit ''UNKNOWN''
   \<and> clean_invoice_total (lit ''UNKNOWN'') = lit ''UNKNOWN''
   \<and> clean_date demo_unicode (lit ''UNKNOWN'') = lit ''UNKNOWN''"
  using cleaners_preserve_sentinel [of demo_unicode]
  by (simp add: UNKNOWN_ATTRIBUTE_TEXT_def)

text \<open>
  C7. For every input string, the output of each of the four cleaning functions contains
  none of the characters \<open>< > : " / \ | ? *\<close>; for \<open>clean_date\<close> this holds for what the
  numeric reformatting returns as well as for the sanitized fallback.
\<close>

theorem cleaners_filename_safe:
  "set (clean_company_name s) \<inter> set illegal_chars = {}
   \<and> set (clean_invoice_number s) \<inter> set illegal_chars = {}
   \<and> set (clean_invoice_total s) \<inter> set illegal_chars = {}
   \<and> set (clean_date U s) \<inter> set illegal_chars = {}
   \<and> (date_loop U (date_patterns U) s = Some r \<longrightarrow> set r \<inter> set illegal_chars = {})
   \<and> set (date_core s) \<inter> set illegal_chars = {}"
proof -
  have legal: "set x \<inter> set illegal_chars = {}" if "\<And>c. c \<in> set x \<Longrightarrow> \<not> illegal_char c" for x
    using that by (auto simp: illegal_char_def)
  have company: "set (clean_company_name s) \<inter> set illegal_chars = {}"
    by (rule legal) (auto simp: clean_company_name_def Let_def
        dest: UNKNOWN_legal company_core_legal split: if_splits)
  have number: "set (clean_invoice_number s) \<inter> set illegal_chars = {}"
    by (rule legal) (auto simp: clean_invoice_number_def Let_def
        dest: UNKNOWN_legal number_core_legal split: if_splits)
  have total: "set (clean_invoice_total s) \<inter> set illegal_chars = {}"
    by (rule legal) (auto simp: clean_invoice_total_def Let_def
        dest: UNKNOWN_legal total_core_legal split: if_splits)
  have date: "set (clean_date U s) \<inter> set illegal_chars = {}"
    by (rule legal) (auto simp: clean_date_def Let_def
        dest: UNKNOWN_legal date_core_legal date_loop_legal split: if_splits option.splits)
  have loop: "date_loop U (date_patterns U) s = Some r \<longrightarrow> set r \<inter> set illegal_chars = {}"
    using legal date_loop_legal by blast
  have core: "set (date_core s) \<inter> set illegal_chars = {}"
    by (rule legal) (rule date_core_legal)
  from company number total date loop core show ?thesis by blast
qed

theorem cleaners_filename_safe_witness:
  "date_loop demo_unicode (date_patterns demo_unicode) (lit ''<12/31/99>'')
     = Some (lit ''1999-12-31'')
   \<and> set (lit ''1999-12-31'') \<inter> set illegal_chars = {}
   \<and> set (clean_company_name (lit ''<12/31/99>'')) \<inter> set illegal_chars = {}
   \<and> set (clean_invoice_number (lit ''<12/31/99>'')) \<inter> set illegal_chars = {}
   \<and> set (clean_invoice_total (lit ''<12/31/99>'')) \<inter> set illegal_chars = {}
   \<and> set (clean_date demo_unicode (lit ''<12/31/99>'')) \<inter> set illegal_chars = {}
   \<and> set (date_core (lit ''<12/31/99>'')) \<inter> set illegal_chars = {}"
proof -
  have h: "date_loop demo_unicode (date_patterns demo_unicode) (lit ''<12/31/99>'')
      = Some (lit ''1999-12-31'')"
    by (simp add: date_eval demo_unicode_def)
  show ?thesis
    using h cleaners_filename_safe [of "lit ''<12/31/99>''" demo_unicode "lit ''1999-12-31''"]
    by blast
qed

text \<open>
  C8. Each cleaning function returns a string for every input string, never the empty
  one: whenever the cleaned text it has computed is empty, it returns the sentinel
  \<open>"UNKNOWN"\<close>. (The functions of the model are total; the one operation of the source that
  can raise, \<open>int\<close> at line 162, is inside the \<open>try\<close> block and is the \<open>None\<close> of
  \<open>py_int\<close>, which \<open>reformat\<close> turns into falling through to the next pattern.)
\<close>

theorem cleaners_never_empty:
  "clean_company_name s \<noteq> [] \<and> clean_invoice_number s \<noteq> []
   \<and> clean_invoice_total s \<noteq> [] \<and> clean_date U s \<noteq> []
   \<and> (company_core s = [] \<longrightarrow> clean_company_name s = UNKNOWN_ATTRIBUTE_TEXT)
   \<and> (number_core s = [] \<longrightarrow> clean_invoice_number s = UNKNOWN_ATTRIBUTE_TEXT)
   \<and> (total_core s = [] \<longrightarrow> clean_invoice_total s = UNKNOWN_ATTRIBUTE_TEXT)
   \<and> (date_loop U (date_patterns U) s = None \<and> date_core s = []
        \<longrightarrow> clean_date U s = UNKNOWN_ATTRIBUTE_TEXT)"
proof -
  have "clean_company_name s \<noteq> []" "clean_invoice_number s \<noteq> []" "clean_invoice_total s \<noteq> []"
    using UNKNOWN_nonempty
    by (auto simp: clean_company_name_def clean_invoice_number_def clean_invoice_total_def Let_def)
  moreover have "clean_date U s \<noteq> []"
    using UNKNOWN_nonempty date_loop_nonempty[of U "date_patterns U" s]
    by (auto simp: clean_date_def Let_def split: option.splits)
  moreover have "company_core s = [] \<longrightarrow> clean_company_name s = UNKNOWN_ATTRIBUTE_TEXT"
    by (simp add: clean_company_name_def)
  moreover have "number_core s = [] \<longrightarrow> clean_invoice_number s = UNKNOWN_ATTRIBUTE_TEXT"
    by (simp add: clean_invoice_number_def)
  moreover have "total_core s = [] \<longrightarrow> clean_invoice_total s = UNKNOWN_ATTRIBUTE_TEXT"
    by (simp add: clean_invoice_total_def)
  moreover have "date_loop U (date_patterns U) s = None \<and> date_core s = []
        \<longrightarrow> clean_date U s = UNKNOWN_ATTRIBUTE_TEXT"
    by (simp add: clean_date_def)
  ultimately show ?thesis by blast
qed

theorem cleaners_never_empty_witness:
  "company_core (lit ''? ?'') = [] \<and> number_core (lit ''? ?'') = []
   \<and> total_core (lit ''? ?'') = [] \<and> date_core (lit ''? ?'') = []
   \<and> date_loop demo_unicode (date_patterns demo_unicode) (lit ''? ?'') = None
   \<and> clean_company_name (lit ''? ?'') = lit ''UNKNOWN''
   \<and> clean_invoice_number (lit ''? ?'') = lit ''UNKNOWN''
   \<and> clean_invoice_total (lit ''? ?'') = lit ''UNKNOWN''
   \<and> clean_date demo_unicode (lit ''? ?'') = lit ''UNKNOWN''"
proof -
  have c: "company_core (lit ''? ?'') = []" "number_core (lit ''? ?'') = []"
      "total_core (lit ''? ?'') = []"
    by (simp_all add: clean_eval)
  have d: "date_core (lit ''? ?'') = []"
      "date_loop demo_unicode (date_patterns demo_unicode) (lit ''? ?'') = None"
    by (simp_all add: date_eval demo_unicode_def)
  show ?thesis
    using c d cleaners_never_empty [of "lit ''? ?''" demo_unicode]
    by (simp add: UNKNOWN_ATTRIBUTE_TEXT_def)
qed

section \<open>The numeric branch of \<open>clean_date\<close>\<close>

lemma digits_value_total:
  "list_all (re_digit U) g \<Longrightarrow> \<exists>n. digits_value U acc g = Some n"
  by (induction g arbitrary: acc) (auto simp: re_digit_def)

lemma digit_group:
  assumes "atom_ok (Rep (re_digit U) (Suc lo) hi) g"
  shows "str_isdigit U g" and "\<exists>n. py_int U g = Some n"
proof -
  from assms have g: "g \<noteq> []" "list_all (re_digit U) g" by auto
  then show "str_isdigit U g" by (auto simp: str_isdigit_def list_all_iff)
  show "\<exists>n. py_int U g = Some n" using g digits_value_total by (simp add: py_int_def)
qed

lemma numeric_groups:
  assumes "re_search p s = Some gs"
    and "groups_of p = [Rep (re_digit U) (Suc a) ha, Rep (re_digit U) (Suc b) hb,
                        Rep (re_digit U) (Suc c) hc]"
  shows "\<exists>g1 g2 g3 n. gs = [g1, g2, g3] \<and> str_isdigit U g1 \<and> str_isdigit U g2
           \<and> str_isdigit U g3 \<and> py_int U g3 = Some n"
proof -
  have "list_all2 atom_ok (groups_of p) gs" using assms(1) by (rule re_search_groups)
  then obtain g1 g2 g3 where gs: "gs = [g1, g2, g3]"
      and ok: "atom_ok (Rep (re_digit U) (Suc a) ha) g1" "atom_ok (Rep (re_digit U) (Suc b) hb) g2"
        "atom_ok (Rep (re_digit U) (Suc c) hc) g3"
    unfolding assms(2) by (auto simp: list_all2_Cons1)
  from ok(3) obtain n where "py_int U g3 = Some n" using digit_group(2) by blast
  then show ?thesis using gs ok digit_group(1) by blast
qed

lemma numeric_reformat:
  assumes "re_search p s = Some gs"
    and "groups_of p = [Rep (re_digit U) (Suc a) ha, Rep (re_digit U) (Suc b) hb,
                        Rep (re_digit U) (Suc c) hc]"
  shows "\<exists>g1 g2 g3 n. gs = [g1, g2, g3] \<and> py_int U g3 = Some n
     \<and> reformat U gs = Some
         (if length g3 = 4 then g1 @ lit ''-'' @ zfill 2 g2 @ lit ''-'' @ zfill 2 g3
          else str_nat (if n < 50 then 2000 + n else 1900 + n) @ lit ''-'' @ zfill 2 g1
               @ lit ''-'' @ zfill 2 g2)"
proof -
  from numeric_groups[OF assms] obtain g1 g2 g3 n where
    g: "gs = [g1, g2, g3]" "str_isdigit U g1" "str_isdigit U g2" "str_isdigit U g3"
       "py_int U g3 = Some n"
    by blast
  then have "reformat U gs = Some
         (if length g3 = 4 then g1 @ lit ''-'' @ zfill 2 g2 @ lit ''-'' @ zfill 2 g3
          else str_nat (if n < 50 then 2000 + n else 1900 + n) @ lit ''-'' @ zfill 2 g1
               @ lit ''-'' @ zfill 2 g2)"
    by (simp add: reformat_def add.commute)
  then show ?thesis using g by blast
qed

lemma groups_of_numeric:
  "groups_of (date_pattern_1 U) = [Rep (re_digit U) (Suc 0) (Some 2),
     Rep (re_digit U) (Suc 0) (Some 2), Rep (re_digit U) (Suc 1) (Some 4)]"
  "groups_of (date_pattern_2 U) = [Rep (re_digit U) (Suc 1) (Some 4),
     Rep (re_digit U) (Suc 0) (Some 2), Rep (re_digit U) (Suc 0) (Some 2)]"
  by (simp_all add: date_pattern_1_def date_pattern_2_def)

text \<open>
  C2. For every input other than the sentinel that one of the two numeric patterns
  matches (the first, or the second when the first does not match), with captured groups
  \<open>g1\<close>, \<open>g2\<close>, \<open>g3\<close>: \<open>int(g3)\<close> is defined, and \<open>clean_date\<close> returns
  \<open>g1 + "-" + zfill2(g2) + "-" + zfill2(g3)\<close> when \<open>g3\<close> has length 4, and otherwise
  \<open>year + "-" + zfill2(g1) + "-" + zfill2(g2)\<close> where \<open>year\<close> is \<open>2000 + int(g3)\<close> if
  \<open>int(g3) < 50\<close> and \<open>1900 + int(g3)\<close> if not. So \<open>clean_date("03/15/2024")\<close> is
  \<open>"03-15-2024"\<close>, a final group \<open>"49"\<close> gives the year 2049 and \<open>"50"\<close> the year 1950.
\<close>

theorem clean_date_numeric:
  assumes "s \<noteq> UNKNOWN_ATTRIBUTE_TEXT"
    and "re_search (date_pattern_1 U) s = Some gs
         \<or> (re_search (date_pattern_1 U) s = None \<and> re_search (date_pattern_2 U) s = Some gs)"
  shows "(\<exists>g1 g2 g3 n. gs = [g1, g2, g3] \<and> py_int U g3 = Some n
     \<and> clean_date U s =
         (if length g3 = 4 then g1 @ lit ''-'' @ zfill 2 g2 @ lit ''-'' @ zfill 2 g3
          else str_nat (if n < 50 then 2000 + n else 1900 + n) @ lit ''-'' @ zfill 2 g1
               @ lit ''-'' @ zfill 2 g2))
   \<and> clean_date U (lit ''03/15/2024'') = lit ''03-15-2024''
   \<and> clean_date U (lit ''3/15/49'') = lit ''2049-03-15''
   \<and> clean_date U (lit ''3/15/50'') = lit ''1950-03-15''"
proof -
  from assms(2) obtain p where p: "re_search p s = Some gs"
      "p = date_pattern_1 U \<or> p = date_pattern_2 U"
      "date_loop U (date_patterns U) s = reformat U gs"
  proof
    assume m: "re_search (date_pattern_1 U) s = Some gs"
    from numeric_reformat[OF m groups_of_numeric(1)] obtain r where "reformat U gs = Some r"
      by blast
    then have "date_loop U (date_patterns U) s = reformat U gs"
      using m by (simp add: date_patterns_def)
    then show ?thesis using m that by blast
  next
    assume m: "re_search (date_pattern_1 U) s = None \<and> re_search (date_pattern_2 U) s = Some gs"
    from m numeric_reformat[OF _ groups_of_numeric(2)] obtain r where "reformat U gs = Some r"
      by blast
    then have "date_loop U (date_patterns U) s = reformat U gs"
      using m by (simp add: date_patterns_def)
    then show ?thesis using m that by blast
  qed
  from p(1,2) have "\<exists>g1 g2 g3 n. gs = [g1, g2, g3] \<and> py_int U g3 = Some n
     \<and> reformat U gs = Some
         (if length g3 = 4 then g1 @ lit ''-'' @ zfill 2 g2 @ lit ''-'' @ zfill 2 g3
          else str_nat (if n < 50 then 2000 + n else 1900 + n) @ lit ''-'' @ zfill 2 g1
               @ lit ''-'' @ zfill 2 g2)"
    using numeric_reformat groups_of_numeric by blast
  then obtain g1 g2 g3 n where g: "gs = [g1, g2, g3]" "py_int U g3 = Some n"
     "reformat U gs = Some
         (if length g3 = 4 then g1 @ lit ''-'' @ zfill 2 g2 @ lit ''-'' @ zfill 2 g3
          else str_nat (if n < 50 then 2000 + n else 1900 + n) @ lit ''-'' @ zfill 2 g1
               @ lit ''-'' @ zfill 2 g2)"
    by blast
  have "clean_date U s =
         (if length g3 = 4 then g1 @ lit ''-'' @ zfill 2 g2 @ lit ''-'' @ zfill 2 g3
          else str_nat (if n < 50 then 2000 + n else 1900 + n) @ lit ''-'' @ zfill 2 g1
               @ lit ''-'' @ zfill 2 g2)"
    using assms(1) p(3) g(3) by (simp add: clean_date_def)
  moreover have "clean_date U (lit ''03/15/2024'') = lit ''03-15-2024''"
    by (simp add: date_eval)
  moreover have "clean_date U (lit ''3/15/49'') = lit ''2049-03-15''"
    by (simp add: date_eval)
  moreover have "clean_date U (lit ''3/15/50'') = lit ''1950-03-15''"
    by (simp add: date_eval)
  ultimately show ?thesis using g(1,2) by blast
qed

theorem clean_date_numeric_witness:
  "lit ''2024-01-5'' \<noteq> UNKNOWN_ATTRIBUTE_TEXT
   \<and> re_search (date_pattern_1 demo_unicode) (lit ''2024-01-5'') = None
   \<and> re_search (date_pattern_2 demo_unicode) (lit ''2024-01-5'')
       = Some [lit ''2024'', lit ''01'', lit ''5'']
   \<and> py_int demo_unicode (lit ''5'') = Some 5
   \<and> clean_date demo_unicode (lit ''2024-01-5'') = lit ''2005-2024-01''"
proof -
  have h1: "lit ''2024-01-5'' \<noteq> UNKNOWN_ATTRIBUTE_TEXT"
    by (simp add: lit_def UNKNOWN_ATTRIBUTE_TEXT_def)
  have h2: "re_search (date_pattern_1 demo_unicode) (lit ''2024-01-5'') = None"
    by (simp add: date_eval demo_unicode_def)
  have h3: "re_search (date_pattern_2 demo_unicode) (lit ''2024-01-5'')
       = Some [lit ''2024'', lit ''01'', lit ''5'']"
    by (simp add: date_eval demo_unicode_def)
  have h4: "py_int demo_unicode (lit ''5'') = Some 5"
    by (simp add: date_eval demo_unicode_def)
  have e: "str_nat (2000 + 5) @ lit ''-'' @ zfill 2 (lit ''2024'') @ lit ''-'' @ zfill 2 (lit ''01'')
      = lit ''2005-2024-01''"
    by (simp add: date_eval)
  from clean_date_numeric [OF h1, of demo_unicode "[lit ''2024'', lit ''01'', lit ''5'']"] h2 h3
  obtain g1 g2 g3 n where g: "[lit ''2024'', lit ''01'', lit ''5''] = [g1, g2, g3]"
      "py_int demo_unicode g3 = Some n"
      "clean_date demo_unicode (lit ''2024-01-5'') =
         (if length g3 = 4 then g1 @ lit ''-'' @ zfill 2 g2 @ lit ''-'' @ zfill 2 g3
          else str_nat (if n < 50 then 2000 + n else 1900 + n) @ lit ''-'' @ zfill 2 g1
               @ lit ''-'' @ zfill 2 g2)"
    by blast
  from g(1) have gs: "g1 = lit ''2024''" "g2 = lit ''01''" "g3 = lit ''5''" by simp_all
  from g(2) h4 gs have n: "n = 5" by simp
  have "clean_date demo_unicode (lit ''2024-01-5'') = lit ''2005-2024-01''"
    using g(3) e unfolding gs n by (simp add: lit_def)
  then show ?thesis using h1 h2 h3 h4 by blast
qed

section \<open>Applying \<open>clean_company_name\<close> twice\<close>

lemma re_sub_class_plus_id:
  "(\<And>c. c \<in> set s \<Longrightarrow> \<not> cls c) \<Longrightarrow> re_sub_class_plus cls repl s = s"
  by (induction s) auto

lemma re_sub_class_plus_clean:
  "(\<And>c. c \<in> set repl \<Longrightarrow> \<not> cls c) \<Longrightarrow> c \<in> set (re_sub_class_plus cls repl s) \<Longrightarrow> \<not> cls c"
  by (induction cls repl s rule: re_sub_class_plus.induct) (auto split: if_splits)

lemma rstrip_prefix: "\<exists>t. s = rev (dropWhile P (rev s)) @ t"
proof -
  have "rev s = takeWhile P (rev s) @ dropWhile P (rev s)" by simp
  then have "s = rev (dropWhile P (rev s)) @ rev (takeWhile P (rev s))"
    by (metis rev_append rev_rev_ident)
  then show ?thesis ..
qed

lemma py_strip_hd:
  assumes "py_strip cls s \<noteq> []"
  shows "\<not> cls (hd (py_strip cls s))"
proof -
  define t where "t = dropWhile cls s"
  obtain u where u: "t = py_strip cls s @ u"
    using rstrip_prefix[of t cls] by (auto simp: py_strip_def t_def)
  then have "t \<noteq> []" using assms by auto
  then have "\<not> cls (hd t)" unfolding t_def by (rule hd_dropWhile)
  moreover have "hd t = hd (py_strip cls s)" using u assms by simp
  ultimately show ?thesis by simp
qed

lemma py_strip_last:
  assumes "py_strip cls s \<noteq> []"
  shows "\<not> cls (last (py_strip cls s))"
proof -
  define t where "t = dropWhile cls (rev (dropWhile cls s))"
  have t: "t \<noteq> []" using assms by (simp add: py_strip_def t_def)
  then have "\<not> cls (hd t)" unfolding t_def by (rule hd_dropWhile)
  moreover have "last (py_strip cls s) = hd t"
    using t by (simp add: py_strip_def t_def last_rev)
  ultimately show ?thesis by simp
qed

lemma py_strip_left_fixed:
  "s \<noteq> [] \<Longrightarrow> \<not> cls (hd s) \<Longrightarrow> py_strip cls s = rev (dropWhile cls (rev s))"
  by (cases s) (simp_all add: py_strip_def)

lemma rstrip_fixed_iff:
  "s \<noteq> [] \<Longrightarrow> (rev (dropWhile P (rev s)) = s) = (\<not> P (last s))"
proof -
  assume s: "s \<noteq> []"
  have "(rev (dropWhile P (rev s)) = s) = (dropWhile P (rev s) = rev s)"
    by (metis rev_rev_ident)
  also have "\<dots> = (\<not> P (hd (rev s)))"
    using s by (simp add: dropWhile_eq_self_iff)
  also have "\<dots> = (\<not> P (last s))" using s by (simp add: hd_rev)
  finally show ?thesis .
qed

lemma rstrip_nonempty:
  "s \<noteq> [] \<Longrightarrow> \<not> P (hd s) \<Longrightarrow> rev (dropWhile P (rev s)) \<noteq> []"
proof -
  assume s: "s \<noteq> []" and h: "\<not> P (hd s)"
  have "hd s \<in> set (rev s)" using s by simp
  then have "\<not> (\<forall>x\<in>set (rev s). P x)" using h by blast
  then have "dropWhile P (rev s) \<noteq> []" by (simp add: dropWhile_eq_Nil_conv)
  then show ?thesis by simp
qed

text \<open>What every result of \<open>clean_company_name\<close> looks like.\<close>

lemma company_core_shape:
  assumes "company_core s \<noteq> []"
  shows "\<forall>c\<in>set (company_core s). \<not> separator_char c"
    and "hd (company_core s) \<noteq> 95"
    and "length (company_core s) \<le> 50"
proof -
  define d where "d = re_sub_class_plus separator_char (lit ''_'')
    (re_sub_suffix (lit ''.com'') (re_sub_prefix (lit ''www.'') (re_sub_class illegal_char [] s)))"
  define x where "x = py_strip (\<lambda>c. c = 95) d"
  have core: "company_core s = (if length x > 50 then take 50 x else x)"
    by (simp add: company_core_def d_def x_def)
  have x: "x \<noteq> []" using assms core by (auto split: if_splits)
  have "\<not> separator_char c" if "c \<in> set d" for c
    using that unfolding d_def
    by (rule re_sub_class_plus_clean[rotated]) (simp add: lit_def char_defs)
  moreover have "set x \<subseteq> set d" unfolding x_def by (rule set_py_strip)
  moreover have "set (company_core s) \<subseteq> set x"
    using core by (auto dest: in_set_takeD)
  ultimately show "\<forall>c\<in>set (company_core s). \<not> separator_char c" by blast
  have "hd (company_core s) = hd x" using core x by (cases x) auto
  moreover have "hd x \<noteq> 95" using py_strip_hd[of "\<lambda>c. c = 95" d] x by (simp add: x_def)
  ultimately show "hd (company_core s) \<noteq> 95" by simp
  show "length (company_core s) \<le> 50" using core by simp
qed

lemma clean_company_name_shape:
  "clean_company_name s \<noteq> []"
  "\<forall>c\<in>set (clean_company_name s). \<not> illegal_char c \<and> \<not> separator_char c"
  "hd (clean_company_name s) \<noteq> 95"
  "length (clean_company_name s) \<le> 50"
proof -
  have u: "\<forall>c\<in>set UNKNOWN_ATTRIBUTE_TEXT. \<not> illegal_char c \<and> \<not> separator_char c"
      "hd UNKNOWN_ATTRIBUTE_TEXT \<noteq> 95" "length UNKNOWN_ATTRIBUTE_TEXT \<le> 50"
    by (simp_all add: UNKNOWN_ATTRIBUTE_TEXT_def lit_def char_defs)
  consider "clean_company_name s = UNKNOWN_ATTRIBUTE_TEXT"
    | "company_core s \<noteq> []" "clean_company_name s = company_core s"
  proof (cases "s \<noteq> UNKNOWN_ATTRIBUTE_TEXT \<and> company_core s \<noteq> []")
    case True
    then have "clean_company_name s = company_core s" by (simp add: clean_company_name_def)
    then show ?thesis using True that(2) by blast
  next
    case False
    then have "clean_company_name s = UNKNOWN_ATTRIBUTE_TEXT"
      by (auto simp: clean_company_name_def)
    then show ?thesis using that(1) by blast
  qed
  then have "clean_company_name s \<noteq> []
     \<and> (\<forall>c\<in>set (clean_company_name s). \<not> illegal_char c \<and> \<not> separator_char c)
     \<and> hd (clean_company_name s) \<noteq> 95 \<and> length (clean_company_name s) \<le> 50"
  proof cases
    case 1
    then show ?thesis using u UNKNOWN_nonempty by simp
  next
    case 2
    then show ?thesis using company_core_shape[of s] company_core_legal[of _ s] by auto
  qed
  then show "clean_company_name s \<noteq> []"
    "\<forall>c\<in>set (clean_company_name s). \<not> illegal_char c \<and> \<not> separator_char c"
    "hd (clean_company_name s) \<noteq> 95"
    "length (clean_company_name s) \<le> 50"
    by simp_all
qed

text \<open>On such a string the second application only removes trailing underscores.\<close>

lemma company_core_second:
  assumes r: "r \<noteq> []"
    and legal: "\<forall>c\<in>set r. \<not> illegal_char c \<and> \<not> separator_char c"
    and hd: "hd r \<noteq> 95"
    and len: "length r \<le> 50"
  shows "company_core r = rev (dropWhile (\<lambda>c. c = 95) (rev r))"
proof -
  have nodot: "46 \<notin> set r" using legal by (auto simp: separator_char_def)
  have a: "re_sub_class illegal_char [] r = r"
    using legal by (simp add: re_sub_class_empty)
  have b: "re_sub_prefix (lit ''www.'') r = r"
  proof -
    have "take (length (lit ''www.'')) r \<noteq> lit ''www.''"
    proof
      assume "take (length (lit ''www.'')) r = lit ''www.''"
      then have "set (lit ''www.'') \<subseteq> set r" by (metis set_take_subset)
      then show False using nodot by (simp add: lit_def)
    qed
    then show ?thesis by (simp add: re_sub_prefix_def)
  qed
  have c: "re_sub_suffix (lit ''.com'') r = r"
  proof -
    have "drop n r \<noteq> lit ''.com''" for n
    proof
      assume "drop n r = lit ''.com''"
      then have "set (lit ''.com'') \<subseteq> set r" by (metis set_drop_subset)
      then show False using nodot by (simp add: lit_def)
    qed
    moreover have "drop n r \<noteq> lit ''.com'' @ [10]" for n
    proof
      assume "drop n r = lit ''.com'' @ [10]"
      then have "set (lit ''.com'' @ [10]) \<subseteq> set r" by (metis set_drop_subset)
      then show False using nodot by (simp add: lit_def)
    qed
    ultimately show ?thesis by (simp add: re_sub_suffix_def Let_def)
  qed
  have d: "re_sub_class_plus separator_char (lit ''_'') r = r"
    using legal by (intro re_sub_class_plus_id) simp
  have e: "py_strip (\<lambda>c. c = 95) r = rev (dropWhile (\<lambda>c. c = 95) (rev r))"
    using r hd by (intro py_strip_left_fixed) simp_all
  have "length (rev (dropWhile (\<lambda>c. c = 95) (rev r))) \<le> length r"
    using length_dropWhile_le[of "\<lambda>c. c = 95" "rev r"] by simp
  then have f: "\<not> length (rev (dropWhile (\<lambda>c. c = 95) (rev r))) > 50" using len by simp
  show ?thesis
    unfolding company_core_def Let_def a b c d e using f by simp
qed

lemma clean_company_name_twice:
  "clean_company_name (clean_company_name s)
     = rev (dropWhile (\<lambda>c. c = 95) (rev (clean_company_name s)))"
proof -
  define r where "r = clean_company_name s"
  have shape: "r \<noteq> []" "\<forall>c\<in>set r. \<not> illegal_char c \<and> \<not> separator_char c" "hd r \<noteq> 95"
      "length r \<le> 50"
    unfolding r_def by (rule clean_company_name_shape)+
  have core: "company_core r = rev (dropWhile (\<lambda>c. c = 95) (rev r))"
    using shape by (rule company_core_second)
  have ne: "rev (dropWhile (\<lambda>c. c = 95) (rev r)) \<noteq> []"
    using shape(1,3) by (intro rstrip_nonempty) simp_all
  show ?thesis
  proof (cases "r = UNKNOWN_ATTRIBUTE_TEXT")
    case True
    have "rev (dropWhile (\<lambda>c. c = 95) (rev UNKNOWN_ATTRIBUTE_TEXT)) = UNKNOWN_ATTRIBUTE_TEXT"
      by (simp add: UNKNOWN_ATTRIBUTE_TEXT_def lit_def)
    moreover have "clean_company_name r = r" using True by (simp add: clean_company_name_def)
    ultimately show ?thesis using True unfolding r_def by simp
  next
    case False
    then have "clean_company_name r = company_core r"
      using core ne by (simp add: clean_company_name_def)
    then show ?thesis using core unfolding r_def by simp
  qed
qed

text \<open>
  C5, as the claim states it, fails: a name whose cleaned form is cut at 50 characters
  just after a separator keeps a final underscore, which a second application strips.
  Here the input is 49 letters \<open>a\<close>, a space and a \<open>b\<close>.
\<close>

theorem clean_company_name_not_idempotent:
  "lit ''aaaaaaaaaaaaaaaaaaaaaaaaaaaaaaaaaaaaaaaaaaaaaaaaa b'' \<noteq> UNKNOWN_ATTRIBUTE_TEXT
   \<and> clean_company_name (lit ''aaaaaaaaaaaaaaaaaaaaaaaaaaaaaaaaaaaaaaaaaaaaaaaaa b'')
       = lit ''aaaaaaaaaaaaaaaaaaaaaaaaaaaaaaaaaaaaaaaaaaaaaaaaa_''
   \<and> clean_company_name
        (clean_company_name (lit ''aaaaaaaaaaaaaaaaaaaaaaaaaaaaaaaaaaaaaaaaaaaaaaaaa b''))
       = lit ''aaaaaaaaaaaaaaaaaaaaaaaaaaaaaaaaaaaaaaaaaaaaaaaaa''
   \<and> clean_company_name
        (clean_company_name (lit ''aaaaaaaaaaaaaaaaaaaaaaaaaaaaaaaaaaaaaaaaaaaaaaaaa b''))
       \<noteq> clean_company_name (lit ''aaaaaaaaaaaaaaaaaaaaaaaaaaaaaaaaaaaaaaaaaaaaaaaaa b'')"
proof -
  have a: "clean_company_name (lit ''aaaaaaaaaaaaaaaaaaaaaaaaaaaaaaaaaaaaaaaaaaaaaaaaa b'')
       = lit ''aaaaaaaaaaaaaaaaaaaaaaaaaaaaaaaaaaaaaaaaaaaaaaaaa_''"
    by (simp add: clean_eval)
  have b: "clean_company_name (lit ''aaaaaaaaaaaaaaaaaaaaaaaaaaaaaaaaaaaaaaaaaaaaaaaaa_'')
       = lit ''aaaaaaaaaaaaaaaaaaaaaaaaaaaaaaaaaaaaaaaaaaaaaaaaa''"
    by (simp add: clean_eval)
  have c: "lit ''aaaaaaaaaaaaaaaaaaaaaaaaaaaaaaaaaaaaaaaaaaaaaaaaa b'' \<noteq> UNKNOWN_ATTRIBUTE_TEXT"
    by (simp add: lit_def UNKNOWN_ATTRIBUTE_TEXT_def)
  have d: "lit ''aaaaaaaaaaaaaaaaaaaaaaaaaaaaaaaaaaaaaaaaaaaaaaaaa''
       \<noteq> lit ''aaaaaaaaaaaaaaaaaaaaaaaaaaaaaaaaaaaaaaaaaaaaaaaaa_''"
    by (simp add: lit_def)
  show ?thesis using a b c d by simp
qed

text \<open>
  C5, amended. For every string \<open>s\<close> other than the sentinel, applying
  \<open>clean_company_name\<close> a second time leaves \<open>clean_company_name(s)\<close> unchanged exactly
  when it does not end with an underscore (code point 95); in general the second
  application removes the underscores at its end and nothing else.
\<close>

theorem clean_company_name_idempotent_iff:
  assumes "s \<noteq> UNKNOWN_ATTRIBUTE_TEXT"
  shows "(clean_company_name (clean_company_name s) = clean_company_name s)
           = (last (clean_company_name s) \<noteq> 95)
   \<and> clean_company_name (clean_company_name s)
       = rev (dropWhile (\<lambda>c. c = 95) (rev (clean_company_name s)))"
  using clean_company_name_twice[of s] clean_company_name_shape(1)[of s]
    rstrip_fixed_iff[of "clean_company_name s" "\<lambda>c. c = 95"]
  by simp

theorem clean_company_name_idempotent_iff_witness:
  "lit ''www.Acme Corp.com'' \<noteq> UNKNOWN_ATTRIBUTE_TEXT
   \<and> clean_company_name (lit ''www.Acme Corp.com'') = lit ''Acme_Corp''
   \<and> last (clean_company_name (lit ''www.Acme Corp.com'')) \<noteq> 95
   \<and> clean_company_name (clean_company_name (lit ''www.Acme Corp.com''))
       = clean_company_name (lit ''www.Acme Corp.com'')"
proof -
  have h: "lit ''www.Acme Corp.com'' \<noteq> UNKNOWN_ATTRIBUTE_TEXT"
    by (simp add: lit_def UNKNOWN_ATTRIBUTE_TEXT_def)
  have a: "clean_company_name (lit ''www.Acme Corp.com'') = lit ''Acme_Corp''"
    by (simp add: clean_eval)
  have l: "last (lit ''Acme_Corp'') \<noteq> 95" by (simp add: lit_def)
  show ?thesis
    using h a l clean_company_name_idempotent_iff [OF h] by simp
qed

section \<open>The claims about \<open>create_new_name\<close>\<close>

lemma candidate_name_eq:
  "candidate_name now d =
     (if company_name d \<noteq> UNKNOWN_ATTRIBUTE_TEXT then company_name d else lit ''UnknownCompany'')
     @ lit ''_''
     @ (if invoice_number d \<noteq> UNKNOWN_ATTRIBUTE_TEXT then invoice_number d else lit ''NoNumber'')
     @ lit ''_''
     @ (if date d \<noteq> UNKNOWN_ATTRIBUTE_TEXT then date d else strftime_Ymd now)
     @ lit ''_''
     @ (if invoice_total d \<noteq> UNKNOWN_ATTRIBUTE_TEXT then invoice_total d else lit ''NoAmount'')
     @ lit ''.pdf''"
  by (simp add: candidate_name_def name_components_def)

lemmas name_eval = create_new_name_def candidate_name_eq strftime_Ymd_def zfill_def
  str_nat.simps lit_def UNKNOWN_ATTRIBUTE_TEXT_def all_unknown_def

text \<open>
  C1. For every InvoiceRecord (cleaned or not), \<open>create_new_name\<close> builds its result from
  the four components company_name, invoice_number, date, invoice_total, in this order,
  joined by \<open>_\<close> and followed by \<open>.pdf\<close>, where a field equal to the sentinel is replaced by
  \<open>"UnknownCompany"\<close>, \<open>"NoNumber"\<close>, the current date as \<open>YYYY-MM-DD\<close> and \<open>"NoAmount"\<close>
  respectively: the result is this string when it has at most 200 characters, and in any
  case agrees with it on the first 200 characters. The record of the claim yields
  \<open>"Acme_INV123_2024-01-05_100.00.pdf"\<close>, and a record of four sentinels on 5 January 2024
  yields \<open>"UnknownCompany_NoNumber_2024-01-05_NoAmount.pdf"\<close>.
\<close>

theorem create_new_name_components:
  "(let joined =
      (if company_name d \<noteq> UNKNOWN_ATTRIBUTE_TEXT then company_name d
       else lit ''UnknownCompany'') @ lit ''_''
      @ (if invoice_number d \<noteq> UNKNOWN_ATTRIBUTE_TEXT then invoice_number d
         else lit ''NoNumber'') @ lit ''_''
      @ (if date d \<noteq> UNKNOWN_ATTRIBUTE_TEXT then date d else strftime_Ymd now) @ lit ''_''
      @ (if invoice_total d \<noteq> UNKNOWN_ATTRIBUTE_TEXT then invoice_total d
         else lit ''NoAmount'') @ lit ''.pdf''
    in (length joined \<le> 200 \<longrightarrow> create_new_name now d = joined)
       \<and> take 200 (create_new_name now d) = take 200 joined)
   \<and> create_new_name now
        \<lparr>company_name = lit ''Acme'', invoice_number = lit ''INV123'',
         invoice_total = lit ''100.00'', date = lit ''2024-01-05''\<rparr>
       = lit ''Acme_INV123_2024-01-05_100.00.pdf''
   \<and> create_new_name \<lparr>year = 2024, month = 1, day = 5\<rparr> all_unknown
       = lit ''UnknownCompany_NoNumber_2024-01-05_NoAmount.pdf''"
proof -
  have a: "create_new_name now
        \<lparr>company_name = lit ''Acme'', invoice_number = lit ''INV123'',
         invoice_total = lit ''100.00'', date = lit ''2024-01-05''\<rparr>
       = lit ''Acme_INV123_2024-01-05_100.00.pdf''"
    by (simp add: name_eval)
  have b: "create_new_name \<lparr>year = 2024, month = 1, day = 5\<rparr> all_unknown
       = lit ''UnknownCompany_NoNumber_2024-01-05_NoAmount.pdf''"
    by (simp add: name_eval)
  have c: "(length (candidate_name now d) \<le> 200 \<longrightarrow> create_new_name now d = candidate_name now d)
       \<and> take 200 (create_new_name now d) = take 200 (candidate_name now d)"
    by (simp add: create_new_name_def Let_def)
  show ?thesis using a b c unfolding candidate_name_eq Let_def by blast
qed

theorem create_new_name_components_witness:
  "length (lit ''Acme_INV123_2024-01-05_100.00.pdf'') \<le> 200
   \<and> create_new_name \<lparr>year = 2026, month = 11, day = 4\<rparr>
        \<lparr>company_name = lit ''Acme'', invoice_number = lit ''INV123'',
         invoice_total = lit ''100.00'', date = lit ''2024-01-05''\<rparr>
       = lit ''Acme_INV123_2024-01-05_100.00.pdf''"
  using create_new_name_components
    [of "\<lparr>company_name = lit ''Acme'', invoice_number = lit ''INV123'',
         invoice_total = lit ''100.00'', date = lit ''2024-01-05''\<rparr>"
        "\<lparr>year = 2026, month = 11, day = 4\<rparr>"]
  by (simp add: lit_def)

text \<open>
  C3. For every InvoiceRecord, if the joined candidate string has more than 200
  characters, the result of \<open>create_new_name\<close> is the candidate's first 200 characters
  followed by \<open>.pdf\<close>; and for every record the result ends with \<open>.pdf\<close>, is not empty and
  has at most 204 characters.
\<close>

theorem create_new_name_truncation:
  "(length (candidate_name now d) > 200
      \<longrightarrow> create_new_name now d = take 200 (candidate_name now d) @ lit ''.pdf'')
   \<and> (\<exists>stem. create_new_name now d = stem @ lit ''.pdf'')
   \<and> create_new_name now d \<noteq> []
   \<and> length (create_new_name now d) \<le> 204"
proof -
  have ends: "\<exists>stem. candidate_name now d = stem @ lit ''.pdf''"
    by (simp add: candidate_name_def)
  have len: "length (lit ''.pdf'') = 4" by (simp add: lit_def)
  show ?thesis
  proof (cases "length (candidate_name now d) > 200")
    case True
    then have "create_new_name now d = take 200 (candidate_name now d) @ lit ''.pdf''"
      by (simp add: create_new_name_def)
    then show ?thesis using True len by (auto simp: lit_def)
  next
    case False
    then have "create_new_name now d = candidate_name now d"
      by (simp add: create_new_name_def)
    then show ?thesis using False ends len by (auto simp: lit_def)
  qed
qed

theorem create_new_name_truncation_witness:
  "length (candidate_name \<lparr>year = 2024, month = 1, day = 5\<rparr>
      (all_unknown\<lparr>invoice_number := replicate 300 65\<rparr>)) > 200
   \<and> create_new_name \<lparr>year = 2024, month = 1, day = 5\<rparr>
        (all_unknown\<lparr>invoice_number := replicate 300 65\<rparr>)
       = lit ''UnknownCompany_'' @ replicate 185 65 @ lit ''.pdf''
   \<and> length (create_new_name \<lparr>year = 2024, month = 1, day = 5\<rparr>
        (all_unknown\<lparr>invoice_number := replicate 300 65\<rparr>)) = 204"
proof -
  have ne: "replicate 300 (65::nat) \<noteq> UNKNOWN_ATTRIBUTE_TEXT"
  proof
    assume "replicate 300 (65::nat) = UNKNOWN_ATTRIBUTE_TEXT"
    then have "length (replicate 300 (65::nat)) = length UNKNOWN_ATTRIBUTE_TEXT" by simp
    then show False by (simp add: UNKNOWN_ATTRIBUTE_TEXT_def lit_def)
  qed
  have c: "candidate_name \<lparr>year = 2024, month = 1, day = 5\<rparr>
      (all_unknown\<lparr>invoice_number := replicate 300 65\<rparr>)
     = lit ''UnknownCompany_'' @ replicate 300 65 @ lit ''_2024-01-05_NoAmount.pdf''"
    using ne by (simp add: candidate_name_eq all_unknown_def strftime_Ymd_def zfill_def
        str_nat.simps lit_def)
  have l: "length (candidate_name \<lparr>year = 2024, month = 1, day = 5\<rparr>
      (all_unknown\<lparr>invoice_number := replicate 300 65\<rparr>)) > 200"
    unfolding c by (simp add: lit_def)
  have t: "take 200 (lit ''UnknownCompany_'' @ replicate 300 65 @ lit ''_2024-01-05_NoAmount.pdf'')
     = lit ''UnknownCompany_'' @ replicate 185 (65::nat)"
    by (simp add: lit_def)
  show ?thesis
    using l create_new_name_truncation
      [of "\<lparr>year = 2024, month = 1, day = 5\<rparr>" "all_unknown\<lparr>invoice_number := replicate 300 65\<rparr>"]
    unfolding c t by (simp add: lit_def)
qed

section \<open>Collision resolution\<close>

subsection \<open>Decimal numerals are distinct\<close>

lemma digits_value_append:
  "digits_value U acc (xs @ ys) =
     (case digits_value U acc xs of None \<Rightarrow> None | Some a \<Rightarrow> digits_value U a ys)"
  by (induction xs arbitrary: acc) (auto split: option.splits)

lemma digits_value_str_nat: "digits_value U 0 (str_nat n) = Some n"
proof (induction n rule: str_nat.induct)
  case (1 n)
  show ?case
  proof (cases "n < 10")
    case True
    then show ?thesis
      by (subst str_nat.simps) (simp add: py_decimal_value_def)
  next
    case False
    have d: "py_decimal_value U (48 + n mod 10) = Some (n mod 10)"
      by (simp add: py_decimal_value_def)
    have "digits_value U 0 (str_nat (n div 10) @ [48 + n mod 10]) = Some n"
      using 1 False d by (simp add: digits_value_append)
    then show ?thesis using False by (subst str_nat.simps) simp
  qed
qed

lemma str_nat_inj: "str_nat m = str_nat n \<Longrightarrow> m = n"
  by (metis digits_value_str_nat option.inject)

subsection \<open>The candidates\<close>

lemma posix_join_numbered:
  "\<exists>pre. \<forall>k. posix_join directory (base @ lit ''_'' @ str_nat k @ ext)
              = pre @ base @ lit ''_'' @ str_nat k @ ext"
proof -
  have t: "take 1 (base @ lit ''_'' @ str_nat k @ ext) = take 1 (base @ lit ''_'')" for k
    by (cases base) (simp_all add: lit_def)
  show ?thesis
  proof (cases "take 1 (base @ lit ''_'') = [47]")
    case True
    have "posix_join directory (base @ lit ''_'' @ str_nat k @ ext)
              = base @ lit ''_'' @ str_nat k @ ext" for k
      by (simp only: posix_join_def t True if_True simp_thms)
    then have "\<forall>k. posix_join directory (base @ lit ''_'' @ str_nat k @ ext)
              = [] @ base @ lit ''_'' @ str_nat k @ ext"
      by simp
    then show ?thesis by blast
  next
    case False
    show ?thesis
    proof (cases "directory = [] \<or> last directory = 47")
      case True
      have "posix_join directory (base @ lit ''_'' @ str_nat k @ ext)
              = directory @ base @ lit ''_'' @ str_nat k @ ext" for k
        by (simp only: posix_join_def t False True if_False if_True)
      then show ?thesis by blast
    next
      case f: False
      have "posix_join directory (base @ lit ''_'' @ str_nat k @ ext)
              = directory @ [47] @ base @ lit ''_'' @ str_nat k @ ext" for k
        by (simp only: posix_join_def t False f if_False)
      then have "\<forall>k. posix_join directory (base @ lit ''_'' @ str_nat k @ ext)
              = (directory @ [47]) @ base @ lit ''_'' @ str_nat k @ ext"
        by simp
      then show ?thesis by blast
    qed
  qed
qed

lemma candidate_inj:
  assumes "candidate old_path new_name (Suc i) = candidate old_path new_name (Suc j)"
  shows "i = j"
proof -
  obtain pre where pre: "\<And>k. posix_join (posix_dirname old_path)
        (fst (posix_splitext new_name) @ lit ''_'' @ str_nat k @ snd (posix_splitext new_name))
      = pre @ fst (posix_splitext new_name) @ lit ''_'' @ str_nat k @ snd (posix_splitext new_name)"
    using posix_join_numbered by blast
  from assms have "str_nat (Suc i) @ snd (posix_splitext new_name)
      = str_nat (Suc j) @ snd (posix_splitext new_name)"
    by (simp add: candidate_def pre)
  then have "str_nat (Suc i) = str_nat (Suc j)" by simp
  then show ?thesis using str_nat_inj by blast
qed

text \<open>A finite file system cannot hold all the candidates.\<close>

lemma finite_has_free_candidate:
  assumes "finite {p. ex p}"
  shows "\<exists>n. \<not> ex (candidate old_path new_name n)"
proof (rule ccontr)
  assume "\<not> (\<exists>n. \<not> ex (candidate old_path new_name n))"
  then have all: "\<And>n. ex (candidate old_path new_name n)" by blast
  have "inj (\<lambda>i. candidate old_path new_name (Suc i))"
    by (rule injI) (rule candidate_inj)
  then have "infinite (range (\<lambda>i. candidate old_path new_name (Suc i)))"
    using finite_imageD by blast
  moreover have "range (\<lambda>i. candidate old_path new_name (Suc i)) \<subseteq> {p. ex p}"
    using all by blast
  ultimately show False using assms finite_subset by blast
qed

subsection \<open>The loop\<close>

lemma free_path_stop: "\<not> ex p \<Longrightarrow> free_path ex directory base ext p c = Some p"
  by (subst free_path.simps) simp

lemma free_path_step:
  "ex p \<Longrightarrow> free_path ex directory base ext p c
     = free_path ex directory base ext
         (posix_join directory (base @ lit ''_'' @ str_nat c @ ext)) (c + 1)"
  by (subst free_path.simps) simp

lemma free_path_runs:
  assumes "ex p"
    and "\<And>j. c \<le> j \<Longrightarrow> j < c + m
           \<Longrightarrow> ex (posix_join directory (base @ lit ''_'' @ str_nat j @ ext))"
    and "\<not> ex (posix_join directory (base @ lit ''_'' @ str_nat (c + m) @ ext))"
  shows "free_path ex directory base ext p c
           = Some (posix_join directory (base @ lit ''_'' @ str_nat (c + m) @ ext))"
  using assms
proof (induction m arbitrary: p c)
  case 0
  then show ?case by (simp add: free_path_step free_path_stop)
next
  case (Suc m)
  have e: "ex (posix_join directory (base @ lit ''_'' @ str_nat c @ ext))"
    using Suc.prems(2)[of c] by simp
  have "free_path ex directory base ext
          (posix_join directory (base @ lit ''_'' @ str_nat c @ ext)) (Suc c)
        = Some (posix_join directory (base @ lit ''_'' @ str_nat (Suc c + m) @ ext))"
    using e Suc.prems by (intro Suc.IH) simp_all
  then show ?case using Suc.prems(1) by (simp add: free_path_step)
qed

lemma rename_file_unfold:
  "rename_file env w old_path new_name =
     (case free_path (path_exists env w) (posix_dirname old_path) (fst (posix_splitext new_name))
             (snd (posix_splitext new_name)) (candidate old_path new_name 0) 1 of
        None \<Rightarrow> None
      | Some p \<Rightarrow> Some (case fst (os_rename env w old_path p) of
                          None \<Rightarrow> Inr p | Some e \<Rightarrow> Inl e,
                        snd (os_rename env w old_path p)))"
  by (simp add: rename_file_def candidate_def Let_def split: prod.splits option.splits)

lemma free_path_first_free:
  assumes free: "\<not> path_exists env w (candidate old_path new_name k)"
    and taken: "\<And>j. j < k \<Longrightarrow> path_exists env w (candidate old_path new_name j)"
  shows "free_path (path_exists env w) (posix_dirname old_path) (fst (posix_splitext new_name))
             (snd (posix_splitext new_name)) (candidate old_path new_name 0) 1
         = Some (candidate old_path new_name k)"
proof (cases k)
  case 0
  then show ?thesis using free by (simp add: free_path_stop)
next
  case (Suc m)
  have c: "posix_join (posix_dirname old_path)
        (fst (posix_splitext new_name) @ lit ''_'' @ str_nat j @ snd (posix_splitext new_name))
      = candidate old_path new_name j" if "0 < j" for j
    using that by (simp add: candidate_def)
  have "free_path (path_exists env w) (posix_dirname old_path) (fst (posix_splitext new_name))
             (snd (posix_splitext new_name)) (candidate old_path new_name 0) 1
         = Some (posix_join (posix_dirname old_path)
        (fst (posix_splitext new_name) @ lit ''_'' @ str_nat (1 + m)
           @ snd (posix_splitext new_name)))"
  proof (rule free_path_runs)
    show "path_exists env w (candidate old_path new_name 0)" using taken Suc by simp
    show "path_exists env w (posix_join (posix_dirname old_path)
        (fst (posix_splitext new_name) @ lit ''_'' @ str_nat j @ snd (posix_splitext new_name)))"
      if "1 \<le> j" "j < 1 + m" for j
      using that taken[of j] Suc c[of j] by simp
    show "\<not> path_exists env w (posix_join (posix_dirname old_path)
        (fst (posix_splitext new_name) @ lit ''_'' @ str_nat (1 + m)
           @ snd (posix_splitext new_name)))"
      using free Suc c[of "1 + m"] by simp
  qed
  then show ?thesis using Suc c[of "1 + m"] by simp
qed

lemma rename_file_first_free_gen:
  assumes "\<not> path_exists env w (candidate old_path new_name n)"
  shows "\<exists>k\<le>n. (\<forall>j<k. path_exists env w (candidate old_path new_name j))
      \<and> \<not> path_exists env w (candidate old_path new_name k)
      \<and> rename_file env w old_path new_name =
          Some (case fst (os_rename env w old_path (candidate old_path new_name k)) of
                  None \<Rightarrow> Inr (candidate old_path new_name k) | Some e \<Rightarrow> Inl e,
                snd (os_rename env w old_path (candidate old_path new_name k)))"
proof -
  define k where "k = (LEAST k. \<not> path_exists env w (candidate old_path new_name k))"
  have free: "\<not> path_exists env w (candidate old_path new_name k)"
    unfolding k_def using assms by (rule LeastI)
  have taken: "path_exists env w (candidate old_path new_name j)" if "j < k" for j
    using that not_less_Least unfolding k_def by blast
  have le: "k \<le> n" unfolding k_def using assms by (rule Least_le)
  have "rename_file env w old_path new_name =
          Some (case fst (os_rename env w old_path (candidate old_path new_name k)) of
                  None \<Rightarrow> Inr (candidate old_path new_name k) | Some e \<Rightarrow> Inl e,
                snd (os_rename env w old_path (candidate old_path new_name k)))"
    using free_path_first_free[OF free taken] by (simp add: rename_file_unfold)
  then show ?thesis using free taken le by blast
qed

lemmas path_eval = candidate_def posix_join_def posix_dirname_def posix_splitext_def
  rfind1_def str_nat.simps lit_def

text \<open>
  C6. For every target file name and every (finite) set of existing paths, the collision
  resolution of \<open>rename_file\<close> ends and picks the first candidate that does not exist in
  the sequence \<open>name\<close>, \<open>base_1.ext\<close>, \<open>base_2.ext\<close>, ... (counter from 1), each in the
  directory of the old path: that candidate is the target of \<open>os.rename\<close> and the value
  returned. For \<open>"X.pdf"\<close> the candidates are \<open>"X.pdf"\<close>, \<open>"X_1.pdf"\<close>, \<open>"X_2.pdf"\<close>, so
  an existing \<open>"X.pdf"\<close> gives \<open>"X_1.pdf"\<close>, and if that exists too, \<open>"X_2.pdf"\<close>.
\<close>

theorem rename_file_first_free:
  assumes "finite {p. path_exists env w p}"
  shows "(\<exists>k. (\<forall>j<k. path_exists env w (candidate old_path new_name j))
      \<and> \<not> path_exists env w (candidate old_path new_name k)
      \<and> rename_file env w old_path new_name =
          Some (case fst (os_rename env w old_path (candidate old_path new_name k)) of
                  None \<Rightarrow> Inr (candidate old_path new_name k) | Some e \<Rightarrow> Inl e,
                snd (os_rename env w old_path (candidate old_path new_name k))))
   \<and> candidate old_path (lit ''X.pdf'') 0 = posix_join (posix_dirname old_path) (lit ''X.pdf'')
   \<and> candidate old_path (lit ''X.pdf'') 1 = posix_join (posix_dirname old_path) (lit ''X_1.pdf'')
   \<and> candidate old_path (lit ''X.pdf'') 2 = posix_join (posix_dirname old_path) (lit ''X_2.pdf'')"
proof -
  obtain n where "\<not> path_exists env w (candidate old_path new_name n)"
    using finite_has_free_candidate[OF assms] by blast
  from rename_file_first_free_gen[OF this]
  obtain k where k: "\<forall>j<k. path_exists env w (candidate old_path new_name j)"
      "\<not> path_exists env w (candidate old_path new_name k)"
      "rename_file env w old_path new_name =
          Some (case fst (os_rename env w old_path (candidate old_path new_name k)) of
                  None \<Rightarrow> Inr (candidate old_path new_name k) | Some e \<Rightarrow> Inl e,
                snd (os_rename env w old_path (candidate old_path new_name k)))"
    by (elim exE conjE)
  have main: "\<exists>k. (\<forall>j<k. path_exists env w (candidate old_path new_name j))
      \<and> \<not> path_exists env w (candidate old_path new_name k)
      \<and> rename_file env w old_path new_name =
          Some (case fst (os_rename env w old_path (candidate old_path new_name k)) of
                  None \<Rightarrow> Inr (candidate old_path new_name k) | Some e \<Rightarrow> Inl e,
                snd (os_rename env w old_path (candidate old_path new_name k)))"
    by (rule exI[of _ k]) (intro conjI k)
  have s: "posix_splitext (lit ''X.pdf'') = (lit ''X'', lit ''.pdf'')"
    by (simp add: posix_splitext_def rfind1_def lit_def)
  have n1: "lit ''X'' @ lit ''_'' @ str_nat 1 @ lit ''.pdf'' = lit ''X_1.pdf''"
    and n2: "lit ''X'' @ lit ''_'' @ str_nat 2 @ lit ''.pdf'' = lit ''X_2.pdf''"
    by (simp_all add: str_nat.simps lit_def)
  have c0: "candidate old_path (lit ''X.pdf'') 0
      = posix_join (posix_dirname old_path) (lit ''X.pdf'')"
    by (simp add: candidate_def)
  have c1: "candidate old_path (lit ''X.pdf'') 1
      = posix_join (posix_dirname old_path) (lit ''X_1.pdf'')"
    unfolding candidate_def s fst_conv snd_conv n1 by simp
  have c2: "candidate old_path (lit ''X.pdf'') 2
      = posix_join (posix_dirname old_path) (lit ''X_2.pdf'')"
    unfolding candidate_def s fst_conv snd_conv n2 by simp
  show ?thesis by (intro conjI main c0 c1 c2)
qed

theorem rename_file_first_free_witness:
  "finite {p. path_exists demo_env [lit ''d/a.png'', lit ''d/X.pdf'', lit ''d/X_1.pdf''] p}
   \<and> rename_file demo_env [lit ''d/a.png'', lit ''d/X.pdf'', lit ''d/X_1.pdf'']
        (lit ''d/a.png'') (lit ''X.pdf'')
       = Some (Inr (lit ''d/X_2.pdf''), [lit ''d/X_2.pdf'', lit ''d/X.pdf'', lit ''d/X_1.pdf''])"
proof -
  define W where "W = [lit ''d/a.png'', lit ''d/X.pdf'', lit ''d/X_1.pdf'']"
  have fin: "finite {p. path_exists demo_env W p}" by (simp add: demo_env_def)
  have d: "posix_dirname (lit ''d/a.png'') = lit ''d''"
    by (simp add: posix_dirname_def rfind1_def lit_def)
  note t = rename_file_first_free [OF fin, of "lit ''d/a.png''" "lit ''X.pdf''", unfolded d]
  from t have c: "candidate (lit ''d/a.png'') (lit ''X.pdf'') 0 = posix_join (lit ''d'') (lit ''X.pdf'')"
      "candidate (lit ''d/a.png'') (lit ''X.pdf'') 1 = posix_join (lit ''d'') (lit ''X_1.pdf'')"
      "candidate (lit ''d/a.png'') (lit ''X.pdf'') 2 = posix_join (lit ''d'') (lit ''X_2.pdf'')"
    by (rule conjunct2[THEN conjunct1], rule conjunct2[THEN conjunct2, THEN conjunct1],
        rule conjunct2[THEN conjunct2, THEN conjunct2])
  from t[THEN conjunct1]
  obtain k where k: "\<forall>j<k. path_exists demo_env W (candidate (lit ''d/a.png'') (lit ''X.pdf'') j)"
      "\<not> path_exists demo_env W (candidate (lit ''d/a.png'') (lit ''X.pdf'') k)"
      "rename_file demo_env W (lit ''d/a.png'') (lit ''X.pdf'') =
          Some (case fst (os_rename demo_env W (lit ''d/a.png'')
                            (candidate (lit ''d/a.png'') (lit ''X.pdf'') k)) of
                  None \<Rightarrow> Inr (candidate (lit ''d/a.png'') (lit ''X.pdf'') k) | Some e \<Rightarrow> Inl e,
                snd (os_rename demo_env W (lit ''d/a.png'')
                       (candidate (lit ''d/a.png'') (lit ''X.pdf'') k)))"
    by (elim exE conjE)
  have j: "posix_join (lit ''d'') (lit ''X.pdf'') = lit ''d/X.pdf''"
      "posix_join (lit ''d'') (lit ''X_1.pdf'') = lit ''d/X_1.pdf''"
      "posix_join (lit ''d'') (lit ''X_2.pdf'') = lit ''d/X_2.pdf''"
    by (simp_all add: posix_join_def lit_def)
  have e: "path_exists demo_env W (candidate (lit ''d/a.png'') (lit ''X.pdf'') 0)"
      "path_exists demo_env W (candidate (lit ''d/a.png'') (lit ''X.pdf'') 1)"
      "\<not> path_exists demo_env W (candidate (lit ''d/a.png'') (lit ''X.pdf'') 2)"
    unfolding c j by (simp_all add: demo_env_def W_def lit_def)
  have "k \<noteq> 0" using k(2) e(1) by (cases "k = 0") simp_all
  moreover have "k \<noteq> 1" using k(2) e(2) by (cases "k = 1") simp_all
  moreover have "\<not> 2 < k" using k(1) e(3) by blast
  ultimately have k2: "k = 2" by arith
  have r: "os_rename demo_env W (lit ''d/a.png'') (lit ''d/X_2.pdf'')
      = (None, [lit ''d/X_2.pdf'', lit ''d/X.pdf'', lit ''d/X_1.pdf''])"
    by (simp add: demo_env_def W_def lit_def)
  have "rename_file demo_env W (lit ''d/a.png'') (lit ''X.pdf'')
       = Some (Inr (lit ''d/X_2.pdf''), [lit ''d/X_2.pdf'', lit ''d/X.pdf'', lit ''d/X_1.pdf''])"
    using k(3) unfolding k2 c j r by simp
  then show ?thesis using fin unfolding W_def by blast
qed

end
